theory Spec2Isabelle
  imports Main "HOL-Library.AList" "HOL-Library.Word"
begin

section \<open>Values of the host language\<close>

text \<open>
  The middleware of \<^verbatim>\<open>index.js\<close> is written against JavaScript values. Only the
  distinctions the code itself makes are kept: \<^verbatim>\<open>=== null\<close>, \<^verbatim>\<open>typeof x === 'string'\<close>,
  \<^verbatim>\<open>typeof x === 'function'\<close>, \<^verbatim>\<open>isUint8Array\<close>, \<^verbatim>\<open>Buffer.isBuffer\<close> and truthiness.
  Byte counts are integers; \<open>NaN\<close> is what \<^verbatim>\<open>Number\<close> gives on \<^verbatim>\<open>undefined\<close>.
\<close>

type_synonym bytes = "8 word list"

datatype jsnum = NaN | Fin int

datatype jsval =
    Undefined
  | Null
  | JBool bool
  | JNum jsnum
  | JStr string
  | JBuffer bytes
  | JUint8Array bytes
  | JFun nat
  | Noop
  | JObj

text \<open>\<open>Noop\<close> is the module's own \<^verbatim>\<open>function noop () { }\<close>; \<open>JFun n\<close> is a function of the
  application. A \<^verbatim>\<open>Buffer\<close> is a \<^verbatim>\<open>Uint8Array\<close> too.\<close>

fun truthy :: "jsval \<Rightarrow> bool" where
  "truthy Undefined = False"
| "truthy Null = False"
| "truthy (JBool b) = b"
| "truthy (JNum NaN) = False"
| "truthy (JNum (Fin n)) = (n \<noteq> 0)"
| "truthy (JStr s) = (s \<noteq> [])"
| "truthy (JBuffer b) = True"
| "truthy (JUint8Array b) = True"
| "truthy (JFun f) = True"
| "truthy Noop = True"
| "truthy JObj = True"

fun is_function :: "jsval \<Rightarrow> bool" where
  "is_function (JFun f) = True"
| "is_function Noop = True"
| "is_function v = False"

fun is_string :: "jsval \<Rightarrow> bool" where
  "is_string (JStr s) = True"
| "is_string v = False"

fun isUint8Array :: "jsval \<Rightarrow> bool" where
  "isUint8Array (JBuffer b) = True"
| "isUint8Array (JUint8Array b) = True"
| "isUint8Array v = False"

fun isBuffer :: "jsval \<Rightarrow> bool" where
  "isBuffer (JBuffer b) = True"
| "isBuffer v = False"

fun bytes_of :: "jsval \<Rightarrow> bytes" where
  "bytes_of (JBuffer b) = b"
| "bytes_of (JUint8Array b) = b"
| "bytes_of v = []"

text \<open>The relational operator \<^verbatim>\<open><\<close> on numbers: every comparison with \<open>NaN\<close> is false.\<close>

fun js_less :: "jsnum \<Rightarrow> jsnum \<Rightarrow> bool" where
  "js_less (Fin a) (Fin b) = (a < b)"
| "js_less a b = False"

section \<open>Response headers\<close>

text \<open>
  A header value is what \<^verbatim>\<open>setHeader\<close> stored: a number, a string or an array of strings;
  \<^verbatim>\<open>getHeader\<close> gives \<^verbatim>\<open>undefined\<close> (\<open>None\<close>) for a field that is not set. Field names are
  compared without case, so the store is keyed by the lower-case name.
\<close>

datatype hval = HNum int | HStr string | HArr "string list"

definition lower_char :: "char \<Rightarrow> char" where
  "lower_char c =
     (case map_of (zip ''ABCDEFGHIJKLMNOPQRSTUVWXYZ'' ''abcdefghijklmnopqrstuvwxyz'') c of
        None \<Rightarrow> c | Some d \<Rightarrow> d)"

definition lowercase :: "string \<Rightarrow> string" where
  "lowercase s = map lower_char s"

type_synonym headers = "(string \<times> hval) list"

definition hget :: "headers \<Rightarrow> string \<Rightarrow> hval option" where
  "hget hs name = map_of hs (lowercase name)"

definition hset :: "headers \<Rightarrow> string \<Rightarrow> hval \<Rightarrow> headers" where
  "hset hs name v = AList.update (lowercase name) v hs"

definition hremove :: "headers \<Rightarrow> string \<Rightarrow> headers" where
  "hremove hs name = AList.delete (lowercase name) hs"

text \<open>Truthiness of \<^verbatim>\<open>res.getHeader(name)\<close>: \<^verbatim>\<open>undefined\<close>, \<^verbatim>\<open>0\<close> and \<^verbatim>\<open>''\<close> are falsy, an
  array is an object and truthy.\<close>

fun htruthy :: "hval option \<Rightarrow> bool" where
  "htruthy None = False"
| "htruthy (Some (HNum n)) = (n \<noteq> 0)"
| "htruthy (Some (HStr s)) = (s \<noteq> [])"
| "htruthy (Some (HArr xs)) = True"

text \<open>\<^verbatim>\<open>String(v)\<close> of a header value; an array is joined with commas.\<close>

fun join_comma :: "string list \<Rightarrow> string" where
  "join_comma [] = []"
| "join_comma [x] = x"
| "join_comma (x # y # ys) = x @ '','' @ join_comma (y # ys)"

definition digit_char :: "nat \<Rightarrow> char" where
  "digit_char d = ''0123456789'' ! (d mod 10)"

function digits :: "nat \<Rightarrow> string" where
  "digits n = (if n < 10 then [digit_char n] else digits (n div 10) @ [digit_char n])"
  by pat_completeness auto
termination
  by (relation "measure id") auto

declare digits.simps [simp del]

fun hstring :: "hval \<Rightarrow> string" where
  "hstring (HNum n) = (if n < 0 then CHR ''-'' # digits (nat (- n)) else digits (nat n))"
| "hstring (HStr s) = s"
| "hstring (HArr xs) = join_comma xs"

section \<open>The no-transform pattern\<close>

text \<open>
  \<^verbatim>\<open>cacheControlNoTransformRegExp = /(?:^|,)\s*?no-transform\s*?(?:,|$)/\<close>.
  A match starts at the beginning of the input or just after a comma, skips white space,
  reads the literal \<^verbatim>\<open>no-transform\<close>, skips white space and then stands before a comma or
  at the end of the input. The character after either run of white space is not white
  space, so a lazy run and a run that is skipped whole accept the same inputs. The white
  space of \<^verbatim>\<open>\s\<close> among the characters a header value can hold: tab, line feed, vertical
  tab, form feed, carriage return, space and no-break space.
\<close>

definition is_space :: "char \<Rightarrow> bool" where
  "is_space c = (c \<in> set [CHR 0x09, CHR 0x0A, CHR 0x0B, CHR 0x0C, CHR 0x0D, CHR 0x20, CHR 0xA0])"

definition directive_tail :: "string \<Rightarrow> bool" where
  "directive_tail t =
     (let u = dropWhile is_space t in
      take 12 u = ''no-transform'' \<and>
      (case dropWhile is_space (drop 12 u) of [] \<Rightarrow> True | c # cs \<Rightarrow> c = CHR '',''))"

definition cacheControlNoTransformRegExp_test :: "string \<Rightarrow> bool" where
  "cacheControlNoTransformRegExp_test s =
     list_ex (\<lambda>i. (i = 0 \<or> s ! (i - 1) = CHR '','') \<and> directive_tail (drop i s))
       [0 ..< Suc (length s)]"

section \<open>The transport and the compression streams\<close>

text \<open>
  Errors are values. These are the error codes the comments of \<^verbatim>\<open>index.js\<close> name for the
  original \<^verbatim>\<open>write\<close> and \<^verbatim>\<open>end\<close> of the response, and the \<^verbatim>\<open>TypeError\<close> of reading
  \<^verbatim>\<open>.length\<close> of \<^verbatim>\<open>null\<close>.
\<close>

datatype nerr =
    ERR_STREAM_NULL_VALUES
  | ERR_INVALID_ARG_TYPE
  | ERR_STREAM_WRITE_AFTER_END
  | ERR_STREAM_DESTROYED
  | ERR_STREAM_ALREADY_FINISHED
  | TypeError

text \<open>A listener is a value of the application or one of the three closures that
  \<^verbatim>\<open>onResponseHeaders\<close> registers.\<close>

datatype handler = Listener jsval | onStreamData | onStreamEnd | onResponseDrain

text \<open>Every call of the response's original \<^verbatim>\<open>write\<close> and \<^verbatim>\<open>end\<close>, with its arguments.\<close>

datatype ncall = CallWrite jsval jsval jsval | CallEnd jsval jsval jsval

record response =
  headers :: headers
  header_sent :: bool
  finished :: bool
  destroyed :: bool
  calls :: "ncall list"
  wire :: "(jsval \<times> jsval) list"
  handlers :: "(jsval \<times> handler) list"

text \<open>\<open>header_sent\<close> is \<^verbatim>\<open>res._header\<close>; \<open>wire\<close> holds the chunks, with their encoding
  argument, that the original \<^verbatim>\<open>write\<close> and \<^verbatim>\<open>end\<close> accepted for sending; \<open>handlers\<close> the
  listeners registered through the original \<^verbatim>\<open>on\<close>.\<close>

definition getHeader :: "response \<Rightarrow> string \<Rightarrow> hval option" where
  "getHeader r name = hget (headers r) name"

definition setHeader :: "response \<Rightarrow> string \<Rightarrow> hval \<Rightarrow> response" where
  "setHeader r name v = r\<lparr>headers := hset (headers r) name v\<rparr>"

definition removeHeader :: "response \<Rightarrow> string \<Rightarrow> response" where
  "removeHeader r name = r\<lparr>headers := hremove (headers r) name\<rparr>"

definition orig_on :: "response \<Rightarrow> jsval \<Rightarrow> handler \<Rightarrow> response" where
  "orig_on r type listener = r\<lparr>handlers := handlers r @ [(type, listener)]\<rparr>"

text \<open>The argument and state checks of the original \<^verbatim>\<open>write\<close>, in the order the comments
  of the proxy rely on: null chunk, chunk type, finished, destroyed.\<close>

definition write_check :: "bool \<Rightarrow> bool \<Rightarrow> jsval \<Rightarrow> nerr option" where
  "write_check fin des chunk =
     (if chunk = Null then Some ERR_STREAM_NULL_VALUES
      else if \<not> (is_string chunk \<or> isUint8Array chunk) then Some ERR_INVALID_ARG_TYPE
      else if fin then Some ERR_STREAM_WRITE_AFTER_END
      else if des then Some ERR_STREAM_DESTROYED
      else None)"

datatype zmethod = Brotli | Gzip | Deflate

record 'o zstream =
  zmethod :: zmethod
  zoptions :: "'o option"
  zinput :: "(bytes \<times> jsval) list"
  zended :: bool
  zflushes :: nat
  zhandlers :: "(jsval \<times> handler) list"

text \<open>\<open>zoptions\<close> is the argument the constructor was called with, \<open>None\<close> when it was called
  with none; \<open>zinput\<close> the buffers written to the stream, in order.\<close>

definition createBrotliCompress :: "'o zstream" where
  "createBrotliCompress =
     \<lparr>zmethod = Brotli, zoptions = None, zinput = [], zended = False, zflushes = 0, zhandlers = []\<rparr>"

definition createGzip :: "'o \<Rightarrow> 'o zstream" where
  "createGzip opts =
     \<lparr>zmethod = Gzip, zoptions = Some opts, zinput = [], zended = False, zflushes = 0, zhandlers = []\<rparr>"

definition createDeflate :: "'o \<Rightarrow> 'o zstream" where
  "createDeflate opts =
     \<lparr>zmethod = Deflate, zoptions = Some opts, zinput = [], zended = False, zflushes = 0, zhandlers = []\<rparr>"

definition stream_on :: "'o zstream \<Rightarrow> jsval \<Rightarrow> handler \<Rightarrow> 'o zstream" where
  "stream_on z type listener = z\<lparr>zhandlers := zhandlers z @ [(type, listener)]\<rparr>"

definition stream_flush :: "'o zstream \<Rightarrow> 'o zstream" where
  "stream_flush z = z\<lparr>zflushes := Suc (zflushes z)\<rparr>"

definition stream_write :: "'o zstream \<Rightarrow> bytes \<Rightarrow> jsval \<Rightarrow> nerr option \<times> 'o zstream" where
  "stream_write z buf encoding =
     (if zended z then (Some ERR_STREAM_WRITE_AFTER_END, z)
      else (None, z\<lparr>zinput := zinput z @ [(buf, encoding)]\<rparr>))"

definition stream_end :: "'o zstream \<Rightarrow> (bytes \<times> jsval) option \<Rightarrow> nerr option \<times> 'o zstream" where
  "stream_end z final =
     (if zended z then
        (case final of None \<Rightarrow> (Some ERR_STREAM_ALREADY_FINISHED, z)
         | Some c \<Rightarrow> (Some ERR_STREAM_WRITE_AFTER_END, z))
      else
        (case final of None \<Rightarrow> (None, z\<lparr>zended := True\<rparr>)
         | Some c \<Rightarrow> (None, z\<lparr>zinput := zinput z @ [c], zended := True\<rparr>)))"

section \<open>Request, options and collaborators\<close>

text \<open>
  \<open>accept_encoding\<close> is the request's Accept-Encoding header as the negotiation library
  reads it: the codings in header order, each with its weight in thousandths; empty when
  the header is absent.
\<close>

record request =
  rmethod :: string
  accept_encoding :: "(string \<times> nat) list"

text \<open>The \<^verbatim>\<open>options\<close> object: \<^verbatim>\<open>filter\<close>, \<^verbatim>\<open>threshold\<close>, and the fields meant for zlib. The
  whole object is what \<^verbatim>\<open>createGzip(opts)\<close> and \<^verbatim>\<open>createDeflate(opts)\<close> receive.\<close>

record options =
  opt_filter :: "(request \<Rightarrow> response \<Rightarrow> bool) option"
  opt_threshold :: jsval
  opt_zlib :: "(string \<times> int) list"

text \<open>
  Functions of other packages, taken as they are: \<^verbatim>\<open>accepts(req).encoding(list)\<close> (\<open>None\<close>
  for \<^verbatim>\<open>false\<close>), \<^verbatim>\<open>compressible(type)\<close>, \<^verbatim>\<open>bytes.parse\<close> (\<open>None\<close> for \<^verbatim>\<open>null\<close>), the
  conversion of a string to a number, and the byte length and the bytes of a string
  under an encoding argument (the second can throw on an encoding it does not know).
\<close>

record env =
  accepts_encoding :: "request \<Rightarrow> string list \<Rightarrow> string option"
  compressible :: "hval \<Rightarrow> bool"
  bytes_parse :: "jsval \<Rightarrow> int option"
  string_to_number :: "string \<Rightarrow> jsnum"
  str_byteLength :: "string \<Rightarrow> jsval \<Rightarrow> nat"
  str_encode :: "string \<Rightarrow> jsval \<Rightarrow> nerr + bytes"

text \<open>\<^verbatim>\<open>Buffer.byteLength\<close> and \<^verbatim>\<open>Buffer.from\<close>: a string, a buffer or a byte array is
  taken, anything else is a type error.\<close>

definition Buffer_byteLength :: "env \<Rightarrow> jsval \<Rightarrow> jsval \<Rightarrow> nerr + nat" where
  "Buffer_byteLength E chunk encoding =
     (case chunk of
        JStr t \<Rightarrow> Inr (str_byteLength E t encoding)
      | JBuffer b \<Rightarrow> Inr (length b)
      | JUint8Array b \<Rightarrow> Inr (length b)
      | _ \<Rightarrow> Inl ERR_INVALID_ARG_TYPE)"

definition Buffer_from :: "env \<Rightarrow> jsval \<Rightarrow> jsval \<Rightarrow> nerr + bytes" where
  "Buffer_from E chunk encoding =
     (case chunk of
        JStr t \<Rightarrow> str_encode E t encoding
      | JBuffer b \<Rightarrow> Inr b
      | JUint8Array b \<Rightarrow> Inr b
      | _ \<Rightarrow> Inl ERR_INVALID_ARG_TYPE)"

text \<open>
  \<^verbatim>\<open>vary(res, field)\<close> of the package of that name. The current Vary value and the field
  are read as comma-separated lists, each item without the spaces around it. A \<^verbatim>\<open>*\<close> on
  either side gives \<^verbatim>\<open>*\<close>; otherwise every field that the header does not list yet,
  compared without case, is appended after a comma and a space. The header is set when
  the result is not empty.
\<close>

fun split_comma :: "string \<Rightarrow> string list" where
  "split_comma [] = [[]]"
| "split_comma (c # cs) =
     (if c = CHR '','' then [] # split_comma cs
      else (case split_comma cs of [] \<Rightarrow> [[c]] | t # ts \<Rightarrow> (c # t) # ts))"

definition strip_spaces :: "string \<Rightarrow> string" where
  "strip_spaces s =
     rev (dropWhile (\<lambda>c. c = CHR '' '') (rev (dropWhile (\<lambda>c. c = CHR '' '') s)))"

definition vary_parse :: "string \<Rightarrow> string list" where
  "vary_parse header = map strip_spaces (split_comma header)"

definition vary_append :: "string \<Rightarrow> string \<Rightarrow> string" where
  "vary_append header field =
     (let fields = vary_parse field;
          vals = vary_parse (lowercase header)
      in
      if ''*'' \<in> set fields \<or> ''*'' \<in> set vals then ''*''
      else
        snd (fold (\<lambda>f (vs, val).
                     if lowercase f \<in> set vs then (vs, val)
                     else (vs @ [lowercase f], if val \<noteq> [] then val @ '', '' @ f else f))
                  fields (vals, header)))"

fun join_comma_space :: "string list \<Rightarrow> string" where
  "join_comma_space [] = []"
| "join_comma_space [x] = x"
| "join_comma_space (x # y # ys) = x @ '', '' @ join_comma_space (y # ys)"

definition vary :: "response \<Rightarrow> string \<Rightarrow> response" where
  "vary r field =
     (let val = getHeader r ''Vary'';
          header = (case val of
                      Some (HArr xs) \<Rightarrow> join_comma_space xs
                    | _ \<Rightarrow> if htruthy val then hstring (the val) else []);
          val' = vary_append header field
      in if val' \<noteq> [] then setHeader r ''Vary'' (HStr val') else r)"

text \<open>\<^verbatim>\<open>Number(res.getHeader(name))\<close>.\<close>

fun Number :: "env \<Rightarrow> hval option \<Rightarrow> jsnum" where
  "Number E None = NaN"
| "Number E (Some (HNum n)) = Fin n"
| "Number E (Some (HStr s)) = string_to_number E s"
| "Number E (Some (HArr xs)) = string_to_number E (join_comma xs)"

section \<open>The middleware\<close>

text \<open>The variables \<^verbatim>\<open>ended\<close>, \<^verbatim>\<open>length\<close>, \<^verbatim>\<open>listeners\<close> and \<^verbatim>\<open>stream\<close> of one call of the
  middleware, with the response it patches. \<open>listeners = None\<close> is \<^verbatim>\<open>listeners = null\<close>.\<close>

record session =
  ended :: bool
  length_est :: "nat option"
  listeners :: "(jsval \<times> jsval) list option"
  stream :: "options zstream option"
  res :: response

definition shouldCompress :: "env \<Rightarrow> request \<Rightarrow> response \<Rightarrow> bool" where
  "shouldCompress E req r =
     (case getHeader r ''Content-Type'' of
        None \<Rightarrow> False
      | Some type \<Rightarrow> compressible E type)"

definition shouldTransform :: "request \<Rightarrow> response \<Rightarrow> bool" where
  "shouldTransform req r =
     (let cacheControl = getHeader r ''Cache-Control'' in
      \<not> htruthy cacheControl \<or>
      \<not> cacheControlNoTransformRegExp_test (hstring (the cacheControl)))"

definition filter_fn :: "env \<Rightarrow> options \<Rightarrow> request \<Rightarrow> response \<Rightarrow> bool" where
  "filter_fn E opts = (case opt_filter opts of None \<Rightarrow> shouldCompress E | Some f \<Rightarrow> f)"

definition threshold :: "env \<Rightarrow> options \<Rightarrow> int" where
  "threshold E opts = (case bytes_parse E (opt_threshold opts) of None \<Rightarrow> 1024 | Some n \<Rightarrow> n)"

definition chunkLength :: "env \<Rightarrow> jsval \<Rightarrow> jsval \<Rightarrow> nerr + nat" where
  "chunkLength E chunk encoding =
     (if \<not> truthy chunk then Inr 0
      else if \<not> isBuffer chunk then Buffer_byteLength E chunk encoding
      else Inr (length (bytes_of chunk)))"

definition toBuffer :: "env \<Rightarrow> jsval \<Rightarrow> jsval \<Rightarrow> nerr + bytes" where
  "toBuffer E chunk encoding =
     (if \<not> isBuffer chunk then Buffer_from E chunk encoding
      else Inr (bytes_of chunk))"

text \<open>\<^verbatim>\<open>addListeners(stream, on, listeners)\<close>: the loop registers the buffered pairs on
  the target, in order; on \<^verbatim>\<open>null\<close> the read of \<^verbatim>\<open>listeners.length\<close> throws.\<close>

definition register_all ::
  "('t \<Rightarrow> jsval \<Rightarrow> handler \<Rightarrow> 't) \<Rightarrow> (jsval \<times> jsval) list \<Rightarrow> 't \<Rightarrow> 't" where
  "register_all on_fn xs target = fold (\<lambda>p tg. on_fn tg (fst p) (Listener (snd p))) xs target"

definition addListeners ::
  "'t \<Rightarrow> ('t \<Rightarrow> jsval \<Rightarrow> handler \<Rightarrow> 't) \<Rightarrow> (jsval \<times> jsval) list option \<Rightarrow> nerr + 't" where
  "addListeners target on_fn ls =
     (case ls of None \<Rightarrow> Inl TypeError | Some xs \<Rightarrow> Inr (register_all on_fn xs target))"

definition nocompress :: "session \<Rightarrow> nerr option \<times> session" where
  "nocompress s =
     (case addListeners (res s) orig_on (listeners s) of
        Inl e \<Rightarrow> (Some e, s)
      | Inr r \<Rightarrow> (None, s\<lparr>res := r, listeners := None\<rparr>))"

text \<open>Lines 225 to 231 of \<^verbatim>\<open>onResponseHeaders\<close>: the negotiation with the step away from
  deflate. A string is truthy when it is not empty.\<close>

definition negotiate :: "env \<Rightarrow> request \<Rightarrow> string option" where
  "negotiate E req =
     (let method = accepts_encoding E req [''br'', ''gzip'', ''deflate'', ''identity''] in
      if method = Some ''deflate'' \<and>
         (case accepts_encoding E req [''gzip''] of None \<Rightarrow> False | Some g \<Rightarrow> g \<noteq> [])
      then accepts_encoding E req [''gzip'', ''identity'']
      else method)"

definition already_encoded :: "response \<Rightarrow> bool" where
  "already_encoded r =
     (let v = getHeader r ''Content-Encoding'' in htruthy v \<and> v \<noteq> Some (HStr ''identity''))"

definition below_threshold :: "env \<Rightarrow> options \<Rightarrow> session \<Rightarrow> bool" where
  "below_threshold E opts s =
     (js_less (Number E (getHeader (res s) ''Content-Length'')) (Fin (threshold E opts)) \<or>
      js_less (case length_est s of None \<Rightarrow> NaN | Some n \<Rightarrow> Fin (int n)) (Fin (threshold E opts)))"

text \<open>Lines 241 to 245: the stream for the negotiated method. Only gzip and deflate are
  given \<^verbatim>\<open>opts\<close>.\<close>

definition new_stream :: "options \<Rightarrow> string \<Rightarrow> options zstream" where
  "new_stream opts method =
     (if method = ''br'' then createBrotliCompress
      else if method = ''gzip'' then createGzip opts
      else createDeflate opts)"

definition onResponseHeaders ::
  "env \<Rightarrow> options \<Rightarrow> request \<Rightarrow> session \<Rightarrow> nerr option \<times> session" where
  "onResponseHeaders E opts req s =
     (if \<not> filter_fn E opts req (res s) then nocompress s
      else if \<not> shouldTransform req (res s) then nocompress s
      else
        let s1 = s\<lparr>res := vary (res s) ''Accept-Encoding''\<rparr> in
        if below_threshold E opts s1 then nocompress s1
        else if already_encoded (res s1) then nocompress s1
        else if rmethod req = ''HEAD'' then nocompress s1
        else
          (case negotiate E req of
             None \<Rightarrow> nocompress s1
           | Some method \<Rightarrow>
               if method = [] \<or> method = ''identity'' then nocompress s1
               else
                 let z = new_stream opts method;
                     s2 = s1\<lparr>stream := Some z\<rparr>
                 in
                 (case addListeners z stream_on (listeners s2) of
                    Inl e \<Rightarrow> (Some e, s2)
                  | Inr z1 \<Rightarrow>
                      let r1 = setHeader (res s2) ''Content-Encoding'' (HStr method);
                          r2 = removeHeader r1 ''Content-Length'';
                          z2 = stream_on z1 (JStr ''data'') onStreamData;
                          z3 = stream_on z2 (JStr ''end'') onStreamEnd;
                          r3 = orig_on r2 (JStr ''drain'') onResponseDrain
                      in (None, s2\<lparr>stream := Some z3, res := r3\<rparr>))))"

text \<open>The checks of \<^verbatim>\<open>onResponseHeaders\<close> before the negotiation, read on the response as
  it is when the listener starts, and the outcomes of the negotiation that are not
  declined.\<close>

definition eligible :: "env \<Rightarrow> options \<Rightarrow> request \<Rightarrow> session \<Rightarrow> bool" where
  "eligible E opts req s =
     (filter_fn E opts req (res s) \<and> shouldTransform req (res s) \<and>
      \<not> below_threshold E opts s \<and> \<not> already_encoded (res s) \<and> rmethod req \<noteq> ''HEAD'')"

definition acceptable :: "string option \<Rightarrow> bool" where
  "acceptable method = (case method of None \<Rightarrow> False | Some m \<Rightarrow> m \<noteq> [] \<and> m \<noteq> ''identity'')"

text \<open>\<^verbatim>\<open>this._implicitHeader()\<close>: the headers listener runs, then the header is sent.\<close>

definition implicitHeader ::
  "env \<Rightarrow> options \<Rightarrow> request \<Rightarrow> session \<Rightarrow> nerr option \<times> session" where
  "implicitHeader E opts req s =
     (case onResponseHeaders E opts req s of
        (Some e, s1) \<Rightarrow> (Some e, s1)
      | (None, s1) \<Rightarrow> (None, s1\<lparr>res := (res s1)\<lparr>header_sent := True\<rparr>\<rparr>))"

definition ensure_header ::
  "env \<Rightarrow> options \<Rightarrow> request \<Rightarrow> session \<Rightarrow> nerr option \<times> session" where
  "ensure_header E opts req s =
     (if header_sent (res s) then (None, s) else implicitHeader E opts req s)"

definition log_call :: "ncall \<Rightarrow> session \<Rightarrow> session" where
  "log_call c s = s\<lparr>res := (res s)\<lparr>calls := calls (res s) @ [c]\<rparr>\<rparr>"

definition send :: "jsval \<Rightarrow> jsval \<Rightarrow> session \<Rightarrow> session" where
  "send chunk encoding s = s\<lparr>res := (res s)\<lparr>wire := wire (res s) @ [(chunk, encoding)]\<rparr>\<rparr>"

definition set_finished :: "bool \<Rightarrow> session \<Rightarrow> session" where
  "set_finished b s = s\<lparr>res := (res s)\<lparr>finished := b\<rparr>\<rparr>"

definition finish :: "session \<Rightarrow> session" where
  "finish s = set_finished True s"

text \<open>
  \<^verbatim>\<open>_write\<close> and \<^verbatim>\<open>_end\<close>, the response's original operations, as the proxy uses them: the
  checks of \<open>write_check\<close>, the header sent on the first body call, the chunk accepted
  for sending. \<^verbatim>\<open>end\<close> on a finished response reports write-after-end when it is given a
  chunk, and already-finished to a function callback when it is not (the response having
  finished writing). Otherwise it finishes the response: a chunk of the wrong type is a
  type error, and on a destroyed response the chunk is dropped and nothing is reported.
\<close>

definition orig_write ::
  "env \<Rightarrow> options \<Rightarrow> request \<Rightarrow> session \<Rightarrow> jsval \<Rightarrow> jsval \<Rightarrow> jsval \<Rightarrow> nerr option \<times> session" where
  "orig_write E opts req s chunk encoding callback =
     (let s0 = log_call (CallWrite chunk encoding callback) s in
      case write_check (finished (res s0)) (destroyed (res s0)) chunk of
        Some e \<Rightarrow> (Some e, s0)
      | None \<Rightarrow>
          (case ensure_header E opts req s0 of
             (Some e, s1) \<Rightarrow> (Some e, s1)
           | (None, s1) \<Rightarrow> (None, send chunk encoding s1)))"

definition orig_end ::
  "env \<Rightarrow> options \<Rightarrow> request \<Rightarrow> session \<Rightarrow> jsval \<Rightarrow> jsval \<Rightarrow> jsval \<Rightarrow> nerr option \<times> session" where
  "orig_end E opts req s chunk encoding callback =
     (let s0 = log_call (CallEnd chunk encoding callback) s in
      if truthy chunk then
        (if finished (res s0) then (Some ERR_STREAM_WRITE_AFTER_END, s0)
         else if \<not> (is_string chunk \<or> isUint8Array chunk) then (Some ERR_INVALID_ARG_TYPE, s0)
         else if destroyed (res s0) then (None, finish s0)
         else
           (case ensure_header E opts req s0 of
              (Some e, s1) \<Rightarrow> (Some e, s1)
            | (None, s1) \<Rightarrow> (None, finish (send chunk encoding s1))))
      else if finished (res s0) then
        (if is_function callback then Some ERR_STREAM_ALREADY_FINISHED else None, s0)
      else
        (case ensure_header E opts req s0 of
           (Some e, s1) \<Rightarrow> (Some e, s1)
         | (None, s1) \<Rightarrow> (None, finish s1)))"

text \<open>\<^verbatim>\<open>new ServerResponse({})\<close>, the throwaway response of the proxy's \<^verbatim>\<open>write\<close>.\<close>

definition ServerResponse :: response where
  "ServerResponse =
     \<lparr>headers = [], header_sent = False, finished = False, destroyed = False,
      calls = [], wire = [], handlers = []\<rparr>"

subsection \<open>The proxy\<close>

definition flush :: "session \<Rightarrow> session" where
  "flush s = (case stream s of None \<Rightarrow> s | Some z \<Rightarrow> s\<lparr>stream := Some (stream_flush z)\<rparr>)"

text \<open>The optional arguments of \<^verbatim>\<open>write\<close> and of \<^verbatim>\<open>end\<close>, as the two functions sort them
  out: a function in the place of the encoding, or of the chunk, is the callback, and a
  callback that is no function is replaced by \<^verbatim>\<open>noop\<close>.\<close>

definition write_args :: "jsval \<Rightarrow> jsval \<Rightarrow> jsval \<times> jsval" where
  "write_args encoding callback =
     (let swap = (\<not> truthy callback \<and> is_function encoding);
          callback1 = (if swap then encoding else callback);
          encoding1 = (if swap then Undefined else encoding)
      in (encoding1, if is_function callback1 then callback1 else Noop))"

definition end_args :: "jsval \<Rightarrow> jsval \<Rightarrow> jsval \<Rightarrow> jsval \<times> jsval \<times> jsval" where
  "end_args chunk encoding callback =
     (let shift_chunk = (\<not> truthy callback \<and> is_function chunk);
          shift_enc = (\<not> truthy callback \<and> \<not> is_function chunk \<and> is_function encoding);
          callback1 = (if shift_chunk then chunk else if shift_enc then encoding else callback)
      in (if shift_chunk then Undefined else chunk,
          if shift_chunk \<or> shift_enc then Undefined else encoding,
          if is_function callback1 then callback1 else Noop))"

definition write' ::
  "env \<Rightarrow> options \<Rightarrow> request \<Rightarrow> session \<Rightarrow> jsval \<Rightarrow> jsval \<Rightarrow> jsval \<Rightarrow> nerr option \<times> session" where
  "write' E opts req s chunk encoding callback =
     (if chunk = Null then orig_write E opts req s chunk encoding callback
      else if \<not> (is_string chunk \<or> isUint8Array chunk) then
        orig_write E opts req s chunk encoding callback
      else
        let encoding1 = fst (write_args encoding callback);
            callback1 = snd (write_args encoding callback)
        in
        if destroyed (res s) \<or> finished (res s) \<or> ended s then
          let fakeRes = (if \<not> destroyed (res s)
                         then ServerResponse\<lparr>destroyed := True, finished := True\<rparr>
                         else ServerResponse\<lparr>destroyed := True\<rparr>)
          in (write_check (finished fakeRes) (destroyed fakeRes) chunk, s)
        else
          (case ensure_header E opts req s of
             (Some e, s1) \<Rightarrow> (Some e, s1)
           | (None, s1) \<Rightarrow>
               (case stream s1 of
                  Some z \<Rightarrow>
                    (case toBuffer E chunk encoding1 of
                       Inl e \<Rightarrow> (Some e, s1)
                     | Inr buf \<Rightarrow>
                         (fst (stream_write z buf encoding1),
                          s1\<lparr>stream := Some (snd (stream_write z buf encoding1))\<rparr>))
                | None \<Rightarrow> orig_write E opts req s1 chunk encoding1 callback1)))"

text \<open>The length estimate of \<^verbatim>\<open>end\<close>, taken while the header is not sent and no
  Content-Length is set.\<close>

definition estimate ::
  "env \<Rightarrow> session \<Rightarrow> jsval \<Rightarrow> jsval \<Rightarrow> nerr option \<times> session" where
  "estimate E s chunk encoding =
     (if \<not> htruthy (getHeader (res s) ''Content-Length'') then
        (case chunkLength E chunk encoding of
           Inl e \<Rightarrow> (Some e, s)
         | Inr n \<Rightarrow> (None, s\<lparr>length_est := Some n\<rparr>))
      else (None, s))"

definition end' ::
  "env \<Rightarrow> options \<Rightarrow> request \<Rightarrow> session \<Rightarrow> jsval \<Rightarrow> jsval \<Rightarrow> jsval \<Rightarrow> nerr option \<times> session" where
  "end' E opts req s chunk0 encoding0 callback0 =
     (let chunk = fst (end_args chunk0 encoding0 callback0);
          encoding = fst (snd (end_args chunk0 encoding0 callback0));
          callback = snd (snd (end_args chunk0 encoding0 callback0))
      in
      if destroyed (res s) \<or> finished (res s) \<or> ended s then
        orig_end E opts req (set_finished (ended s) s) chunk encoding callback
      else
        (case (if header_sent (res s) then (None, s)
               else (case estimate E s chunk encoding of
                       (Some e, s') \<Rightarrow> (Some e, s')
                     | (None, s') \<Rightarrow> implicitHeader E opts req s')) of
           (Some e, s1) \<Rightarrow> (Some e, s1)
         | (None, s1) \<Rightarrow>
             (case stream s1 of
                None \<Rightarrow> orig_end E opts req s1 chunk encoding callback
              | Some z \<Rightarrow>
                  let s2 = s1\<lparr>ended := True\<rparr> in
                  if truthy chunk then
                    (case toBuffer E chunk encoding of
                       Inl e \<Rightarrow> (Some e, s2)
                     | Inr buf \<Rightarrow>
                         (fst (stream_end z (Some (buf, encoding))),
                          s2\<lparr>stream := Some (snd (stream_end z (Some (buf, encoding))))\<rparr>))
                  else
                    (fst (stream_end z None), s2\<lparr>stream := Some (snd (stream_end z None))\<rparr>))))"

definition on :: "session \<Rightarrow> jsval \<Rightarrow> jsval \<Rightarrow> session" where
  "on s type listener =
     (case listeners s of
        None \<Rightarrow> s\<lparr>res := orig_on (res s) type (Listener listener)\<rparr>
      | Some buffered \<Rightarrow>
          if type \<noteq> JStr ''drain'' then s\<lparr>res := orig_on (res s) type (Listener listener)\<rparr>
          else
            (case stream s of
               Some z \<Rightarrow> s\<lparr>stream := Some (stream_on z type (Listener listener))\<rparr>
             | None \<Rightarrow> s\<lparr>listeners := Some (buffered @ [(type, listener)])\<rparr>))"

text \<open>The middleware on one response: the variables as \<^verbatim>\<open>compression (req, res, next)\<close>
  initialises them.\<close>

definition compression :: "response \<Rightarrow> session" where
  "compression r = \<lparr>ended = False, length_est = None, listeners = Some [], stream = None, res = r\<rparr>"

text \<open>What an application does with the patched response, and a sequence of it. An error
  is reported to the caller, who may go on.\<close>

datatype call = Write jsval jsval jsval | End jsval jsval jsval | On jsval jsval | Flush

fun step :: "env \<Rightarrow> options \<Rightarrow> request \<Rightarrow> session \<Rightarrow> call \<Rightarrow> nerr option \<times> session" where
  "step E opts req s (Write c e cb) = write' E opts req s c e cb"
| "step E opts req s (End c e cb) = end' E opts req s c e cb"
| "step E opts req s (On t l) = (None, on s t l)"
| "step E opts req s Flush = (None, flush s)"

fun run :: "env \<Rightarrow> options \<Rightarrow> request \<Rightarrow> session \<Rightarrow> call list \<Rightarrow> session" where
  "run E opts req s [] = s"
| "run E opts req s (c # cs) = run E opts req (snd (step E opts req s c)) cs"

text \<open>
  Until the header is sent the listener has not run: no stream is installed and the
  buffer of listeners is an array. This holds of a new session and is kept by every call.
\<close>

definition coherent :: "session \<Rightarrow> bool" where
  "coherent s = (header_sent (res s) \<or> (stream s = None \<and> listeners s \<noteq> None))"

section \<open>Runs of a response\<close>

text \<open>A \<^verbatim>\<open>Vary\<close> value lists a field when the field is among its items, compared without
  case, or when it is \<^verbatim>\<open>*\<close>.\<close>

definition lists_field :: "hval option \<Rightarrow> string \<Rightarrow> bool" where
  "lists_field v field =
     (case v of
        Some (HStr h) \<Rightarrow>
          lowercase field \<in> set (vary_parse (lowercase h)) \<or> ''*'' \<in> set (vary_parse (lowercase h))
      | _ \<Rightarrow> False)"

text \<open>A session in pass-through on a live response with the header sent.\<close>

definition passthrough :: "session \<Rightarrow> bool" where
  "passthrough s =
     (stream s = None \<and> header_sent (res s) \<and> \<not> ended s \<and>
      \<not> finished (res s) \<and> \<not> destroyed (res s))"

text \<open>The chunks \<^verbatim>\<open>write\<close> takes itself: a string or a \<^verbatim>\<open>Uint8Array\<close>.\<close>

definition valid_chunk :: "jsval \<Rightarrow> bool" where
  "valid_chunk c = (is_string c \<or> isUint8Array c)"

text \<open>The chunks a list of \<^verbatim>\<open>write\<close> calls and a final \<^verbatim>\<open>end\<close> call hand over, each with the
  encoding argument as the two functions sort it out; a falsy chunk of \<^verbatim>\<open>end\<close> is no
  chunk.\<close>

definition written :: "(jsval \<times> jsval \<times> jsval) list \<Rightarrow> (jsval \<times> jsval) list" where
  "written ws = map (\<lambda>w. (fst w, fst (write_args (fst (snd w)) (snd (snd w))))) ws"

definition final_chunk :: "jsval \<Rightarrow> jsval \<Rightarrow> jsval \<Rightarrow> (jsval \<times> jsval) list" where
  "final_chunk c e cb =
     (if truthy (fst (end_args c e cb))
      then [(fst (end_args c e cb), fst (snd (end_args c e cb)))] else [])"

definition body_calls :: "(jsval \<times> jsval \<times> jsval) list \<Rightarrow> jsval \<Rightarrow> jsval \<Rightarrow> jsval \<Rightarrow> call list" where
  "body_calls ws c e cb = map (\<lambda>w. Write (fst w) (fst (snd w)) (snd (snd w))) ws @ [End c e cb]"

text \<open>The session as the headers listener finds it at the first body call of
  \<open>body_calls\<close>: when that call is \<^verbatim>\<open>end\<close>, the length estimate has been taken.\<close>

definition at_decision ::
  "env \<Rightarrow> response \<Rightarrow> (jsval \<times> jsval \<times> jsval) list \<Rightarrow> jsval \<Rightarrow> jsval \<Rightarrow> jsval \<Rightarrow> session" where
  "at_decision E r ws c e cb =
     (if ws = [] then
        snd (estimate E (compression r) (fst (end_args c e cb)) (fst (snd (end_args c e cb))))
      else compression r)"

text \<open>The resolved body size in the words of the specification: the \<^verbatim>\<open>Content-Length\<close>
  header when there is one, otherwise the estimated length.\<close>

definition resolved_size :: "env \<Rightarrow> session \<Rightarrow> jsnum" where
  "resolved_size E s =
     (case getHeader (res s) ''Content-Length'' of
        Some v \<Rightarrow> Number E (Some v)
      | None \<Rightarrow> (case length_est s of None \<Rightarrow> NaN | Some n \<Rightarrow> Fin (int n)))"

section \<open>A concrete environment\<close>

text \<open>
  The negotiation behind \<^verbatim>\<open>accepts(req).encoding\<close> on a parsed Accept-Encoding header. The
  identity coding, when the header names neither it nor \<^verbatim>\<open>*\<close>, is added last with the
  lowest weight of the header. Each provided coding gets the most specific entry that
  names it (\<open>q\<close> weight, \<open>s\<close> 1 for a name and 0 for \<^verbatim>\<open>*\<close>, \<open>o\<close> position in the header,
  \<open>i\<close> position in the provided list). Codings of weight 0 are dropped, the rest is
  ordered by higher \<open>q\<close>, higher \<open>s\<close>, lower \<open>o\<close>, lower \<open>i\<close>, and the first one is the
  answer.
\<close>

record prio =
  pq :: nat
  ps :: nat
  po :: int
  pi :: nat

definition parseAcceptEncoding :: "(string \<times> nat) list \<Rightarrow> (string \<times> nat \<times> nat) list" where
  "parseAcceptEncoding hdr =
     (let accepts = map (\<lambda>(i, (c, q)). (c, q, i)) (zip [0 ..< length hdr] hdr);
          hasIdentity = list_ex (\<lambda>(c, q). lowercase c = ''identity'' \<or> c = ''*'') hdr;
          minQuality = fold (\<lambda>(c, q) m. min m (if q = 0 then 1000 else q)) hdr 1000
      in if hasIdentity then accepts else accepts @ [(''identity'', minQuality, length hdr)])"

definition specify :: "string \<Rightarrow> (string \<times> nat \<times> nat) \<Rightarrow> nat \<Rightarrow> prio option" where
  "specify encoding spec index =
     (case spec of (c, q, i) \<Rightarrow>
        if lowercase c = lowercase encoding then Some \<lparr>pq = q, ps = 1, po = int i, pi = index\<rparr>
        else if c \<noteq> ''*'' then None
        else Some \<lparr>pq = q, ps = 0, po = int i, pi = index\<rparr>)"

definition getEncodingPriority :: "string \<Rightarrow> (string \<times> nat \<times> nat) list \<Rightarrow> nat \<Rightarrow> prio" where
  "getEncodingPriority encoding accepted index =
     fold (\<lambda>a priority.
             case specify encoding a index of
               None \<Rightarrow> priority
             | Some spec \<Rightarrow>
                 if (if ps priority \<noteq> ps spec then ps priority < ps spec
                     else if pq priority \<noteq> pq spec then pq priority < pq spec
                     else po priority < po spec)
                 then spec else priority)
          accepted \<lparr>pq = 0, ps = 0, po = - 1, pi = index\<rparr>"

definition compareSpecs_before :: "prio \<Rightarrow> prio \<Rightarrow> bool" where
  "compareSpecs_before a b =
     (if pq a \<noteq> pq b then pq b < pq a
      else if ps a \<noteq> ps b then ps b < ps a
      else if po a \<noteq> po b then po a < po b
      else pi a < pi b)"

definition preferredEncoding :: "(string \<times> nat) list \<Rightarrow> string list \<Rightarrow> string option" where
  "preferredEncoding hdr provided =
     (let accepts = parseAcceptEncoding hdr;
          priorities = map (\<lambda>(i, t). getEncodingPriority t accepts i)
                           (zip [0 ..< length provided] provided);
          best = fold (\<lambda>p b. if pq p = 0 then b
                              else case b of None \<Rightarrow> Some p
                                   | Some c \<Rightarrow> if compareSpecs_before p c then Some p else Some c)
                      priorities None
      in case best of None \<Rightarrow> None | Some p \<Rightarrow> Some (provided ! pi p))"

text \<open>
  The other collaborators, on the inputs the examples below use: three compressible
  media types, a threshold given as a number, header values that are decimal numerals,
  one byte for each character of a string.
\<close>

definition decimal :: "string \<Rightarrow> jsnum" where
  "decimal s =
     (if list_all (\<lambda>c. c \<in> set ''0123456789'') s
      then Fin (fold (\<lambda>c n. 10 * n + int (the (map_of (zip ''0123456789'' [0 ..< 10]) c))) s 0)
      else NaN)"

definition node_env :: env where
  "node_env =
     \<lparr>accepts_encoding = (\<lambda>req provided. preferredEncoding (accept_encoding req) provided),
      compressible = (\<lambda>t. t \<in> set [HStr ''text/html'', HStr ''text/plain'', HStr ''application/json'']),
      bytes_parse = (\<lambda>v. case v of JNum (Fin n) \<Rightarrow> Some n | _ \<Rightarrow> None),
      string_to_number = decimal,
      str_byteLength = (\<lambda>t encoding. length t),
      str_encode = (\<lambda>t encoding. Inr (map (\<lambda>c. of_nat (of_char c)) t))\<rparr>"

subsection \<open>Requests, options and responses of the examples\<close>

definition default_options :: options where
  "default_options = \<lparr>opt_filter = None, opt_threshold = Undefined, opt_zlib = []\<rparr>"

definition level9 :: options where
  "level9 = \<lparr>opt_filter = None, opt_threshold = Undefined, opt_zlib = [(''level'', 9)]\<rparr>"

definition fresh_response :: "headers \<Rightarrow> response" where
  "fresh_response hs =
     \<lparr>headers = hs, header_sent = False, finished = False, destroyed = False,
      calls = [], wire = [], handlers = []\<rparr>"

definition get_request :: "(string \<times> nat) list \<Rightarrow> request" where
  "get_request hdr = \<lparr>rmethod = ''GET'', accept_encoding = hdr\<rparr>"

definition head_request :: "(string \<times> nat) list \<Rightarrow> request" where
  "head_request hdr = \<lparr>rmethod = ''HEAD'', accept_encoding = hdr\<rparr>"

definition html_response :: response where
  "html_response = fresh_response [(''content-type'', HStr ''text/html'')]"

definition html_5000 :: response where
  "html_5000 =
     fresh_response [(''content-type'', HStr ''text/html''), (''content-length'', HNum 5000)]"

definition small_response :: response where
  "small_response =
     fresh_response [(''content-type'', HStr ''text/html''), (''content-length'', HNum 5)]"

definition no_transform_response :: response where
  "no_transform_response =
     fresh_response [(''content-type'', HStr ''text/html''),
                     (''cache-control'', HStr ''public, no-transform'')]"

text \<open>The session after \<^verbatim>\<open>res.end('hello')\<close> on a small response (pass-through).\<close>

definition ended_once :: session where
  "ended_once =
     snd (end' node_env default_options (get_request [(''gzip'', 1000)])
            (compression small_response) (JStr ''hello'') Undefined Undefined)"

text \<open>The same response when the original \<^verbatim>\<open>end\<close> is called on it directly.\<close>

definition native_ended_once :: session where
  "native_ended_once =
     snd (orig_end node_env default_options (get_request [(''gzip'', 1000)])
            (compression small_response) (JStr ''hello'') Undefined Noop)"

section \<open>Facts about the operations\<close>

lemma lowercase_names:
  "lowercase ''Vary'' = ''vary''"
  "lowercase ''Content-Length'' = ''content-length''"
  "lowercase ''Content-Encoding'' = ''content-encoding''"
  "lowercase ''Content-Type'' = ''content-type''"
  "lowercase ''Cache-Control'' = ''cache-control''"
  by (simp_all add: lowercase_def lower_char_def)

lemma getHeader_setHeader:
  "getHeader (setHeader r n v) m =
     (if lowercase m = lowercase n then Some v else getHeader r m)"
  by (simp add: getHeader_def setHeader_def hget_def hset_def update_conv')

lemma getHeader_removeHeader:
  "getHeader (removeHeader r n) m =
     (if lowercase m = lowercase n then None else getHeader r m)"
  by (simp add: getHeader_def removeHeader_def hget_def hremove_def delete_conv')

lemma getHeader_orig_on: "getHeader (orig_on r t l) m = getHeader r m"
  by (simp add: getHeader_def orig_on_def)

lemma setHeader_fields:
  "header_sent (setHeader r n v) = header_sent r"
  "finished (setHeader r n v) = finished r"
  "destroyed (setHeader r n v) = destroyed r"
  "calls (setHeader r n v) = calls r"
  "wire (setHeader r n v) = wire r"
  "handlers (setHeader r n v) = handlers r"
  by (simp_all add: setHeader_def)

lemma orig_on_fields:
  "headers (orig_on r t l) = headers r"
  "header_sent (orig_on r t l) = header_sent r"
  "finished (orig_on r t l) = finished r"
  "destroyed (orig_on r t l) = destroyed r"
  "calls (orig_on r t l) = calls r"
  "wire (orig_on r t l) = wire r"
  "handlers (orig_on r t l) = handlers r @ [(t, l)]"
  by (simp_all add: orig_on_def)

lemma vary_fields:
  "header_sent (vary r f) = header_sent r"
  "finished (vary r f) = finished r"
  "destroyed (vary r f) = destroyed r"
  "calls (vary r f) = calls r"
  "wire (vary r f) = wire r"
  "handlers (vary r f) = handlers r"
  by (simp_all add: vary_def Let_def setHeader_fields)

lemma getHeader_vary:
  "lowercase m \<noteq> ''vary'' \<Longrightarrow> getHeader (vary r f) m = getHeader r m"
  by (simp add: vary_def Let_def getHeader_setHeader lowercase_names)

lemma register_all_simps:
  "register_all on_fn [] target = target"
  "register_all on_fn (p # xs) target = register_all on_fn xs (on_fn target (fst p) (Listener (snd p)))"
  by (simp_all add: register_all_def)

lemma register_all_res:
  "headers (register_all orig_on xs r) = headers r \<and>
   header_sent (register_all orig_on xs r) = header_sent r \<and>
   finished (register_all orig_on xs r) = finished r \<and>
   destroyed (register_all orig_on xs r) = destroyed r \<and>
   calls (register_all orig_on xs r) = calls r \<and>
   wire (register_all orig_on xs r) = wire r \<and>
   handlers (register_all orig_on xs r) = handlers r @ map (\<lambda>p. (fst p, Listener (snd p))) xs"
proof (induction xs arbitrary: r)
  case Nil
  show ?case by (simp add: register_all_simps)
next
  case (Cons p xs)
  show ?case by (simp add: register_all_simps Cons.IH orig_on_fields)
qed

lemma stream_on_fields:
  "zmethod (stream_on z t l) = zmethod z"
  "zoptions (stream_on z t l) = zoptions z"
  "zinput (stream_on z t l) = zinput z"
  "zended (stream_on z t l) = zended z"
  "zflushes (stream_on z t l) = zflushes z"
  "zhandlers (stream_on z t l) = zhandlers z @ [(t, l)]"
  by (simp_all add: stream_on_def)

lemma register_all_stream:
  "zmethod (register_all stream_on xs z) = zmethod z \<and>
   zoptions (register_all stream_on xs z) = zoptions z \<and>
   zinput (register_all stream_on xs z) = zinput z \<and>
   zended (register_all stream_on xs z) = zended z \<and>
   zflushes (register_all stream_on xs z) = zflushes z \<and>
   zhandlers (register_all stream_on xs z) = zhandlers z @ map (\<lambda>p. (fst p, Listener (snd p))) xs"
proof (induction xs arbitrary: z)
  case Nil
  show ?case by (simp add: register_all_simps)
next
  case (Cons p xs)
  show ?case by (simp add: register_all_simps Cons.IH stream_on_fields)
qed

lemma nocompress_Some:
  "listeners s = Some xs \<Longrightarrow>
   nocompress s = (None, s\<lparr>res := register_all orig_on xs (res s), listeners := None\<rparr>)"
  by (simp add: nocompress_def addListeners_def)

lemma nocompress_None: "listeners s = None \<Longrightarrow> nocompress s = (Some TypeError, s)"
  by (simp add: nocompress_def addListeners_def)

lemma nocompress_keeps:
  "stream (snd (nocompress s)) = stream s \<and>
   ended (snd (nocompress s)) = ended s \<and>
   length_est (snd (nocompress s)) = length_est s \<and>
   headers (res (snd (nocompress s))) = headers (res s) \<and>
   header_sent (res (snd (nocompress s))) = header_sent (res s) \<and>
   finished (res (snd (nocompress s))) = finished (res s) \<and>
   destroyed (res (snd (nocompress s))) = destroyed (res s) \<and>
   calls (res (snd (nocompress s))) = calls (res s) \<and>
   wire (res (snd (nocompress s))) = wire (res s)"
proof (cases "listeners s")
  case None
  then show ?thesis by (simp add: nocompress_None)
next
  case (Some xs)
  then show ?thesis by (simp add: nocompress_Some register_all_res)
qed

lemma getHeader_nocompress: "getHeader (res (snd (nocompress s))) m = getHeader (res s) m"
  by (simp add: getHeader_def nocompress_keeps)

lemma below_threshold_vary:
  "below_threshold E opts (s\<lparr>res := vary (res s) f\<rparr>) = below_threshold E opts s"
  by (simp add: below_threshold_def getHeader_vary lowercase_names)

lemma already_encoded_vary: "already_encoded (vary r f) = already_encoded r"
  by (simp add: already_encoded_def getHeader_vary lowercase_names)

lemma engine_filtered:
  "\<not> filter_fn E opts req (res s) \<or> \<not> shouldTransform req (res s) \<Longrightarrow>
   onResponseHeaders E opts req s = nocompress s"
  by (auto simp: onResponseHeaders_def)

lemma engine_declined:
  assumes "filter_fn E opts req (res s)" "shouldTransform req (res s)"
    and "below_threshold E opts s \<or> already_encoded (res s) \<or> rmethod req = ''HEAD'' \<or>
         \<not> acceptable (negotiate E req)"
  shows "onResponseHeaders E opts req s = nocompress (s\<lparr>res := vary (res s) ''Accept-Encoding''\<rparr>)"
proof -
  let ?s1 = "s\<lparr>res := vary (res s) ''Accept-Encoding''\<rparr>"
  have b: "below_threshold E opts ?s1 = below_threshold E opts s"
    by (rule below_threshold_vary)
  have a: "already_encoded (res ?s1) = already_encoded (res s)"
    by (simp add: already_encoded_vary)
  show ?thesis
    using assms unfolding onResponseHeaders_def Let_def b a acceptable_def
    by (auto split: option.splits)
qed

lemma engine_accepted:
  assumes "eligible E opts req s" "negotiate E req = Some m" "acceptable (Some m)"
    and "listeners s = Some xs"
  shows "onResponseHeaders E opts req s =
     (None,
      s\<lparr>res := orig_on (removeHeader (setHeader (vary (res s) ''Accept-Encoding'')
                          ''Content-Encoding'' (HStr m)) ''Content-Length'')
                   (JStr ''drain'') onResponseDrain,
        stream := Some (stream_on (stream_on (register_all stream_on xs (new_stream opts m))
                          (JStr ''data'') onStreamData) (JStr ''end'') onStreamEnd)\<rparr>)"
proof -
  let ?s1 = "s\<lparr>res := vary (res s) ''Accept-Encoding''\<rparr>"
  have b: "below_threshold E opts ?s1 = below_threshold E opts s"
    by (rule below_threshold_vary)
  have a: "already_encoded (res ?s1) = already_encoded (res s)"
    by (simp add: already_encoded_vary)
  show ?thesis
    using assms unfolding onResponseHeaders_def Let_def b a acceptable_def eligible_def
    by (simp add: addListeners_def)
qed

lemma engine_accepted_unbuffered:
  assumes "eligible E opts req s" "negotiate E req = Some m" "acceptable (Some m)"
    and "listeners s = None"
  shows "onResponseHeaders E opts req s =
     (Some TypeError,
      s\<lparr>res := vary (res s) ''Accept-Encoding'', stream := Some (new_stream opts m)\<rparr>)"
proof -
  let ?s1 = "s\<lparr>res := vary (res s) ''Accept-Encoding''\<rparr>"
  have b: "below_threshold E opts ?s1 = below_threshold E opts s"
    by (rule below_threshold_vary)
  have a: "already_encoded (res ?s1) = already_encoded (res s)"
    by (simp add: already_encoded_vary)
  show ?thesis
    using assms unfolding onResponseHeaders_def Let_def b a acceptable_def eligible_def
    by (simp add: addListeners_def)
qed

lemma ensure_header_sent: "header_sent (res s) \<Longrightarrow> ensure_header E opts req s = (None, s)"
  by (simp add: ensure_header_def)

lemma log_call_fields:
  "ended (log_call c s) = ended s"
  "length_est (log_call c s) = length_est s"
  "listeners (log_call c s) = listeners s"
  "stream (log_call c s) = stream s"
  "headers (res (log_call c s)) = headers (res s)"
  "header_sent (res (log_call c s)) = header_sent (res s)"
  "finished (res (log_call c s)) = finished (res s)"
  "destroyed (res (log_call c s)) = destroyed (res s)"
  "wire (res (log_call c s)) = wire (res s)"
  "calls (res (log_call c s)) = calls (res s) @ [c]"
  "handlers (res (log_call c s)) = handlers (res s)"
  by (simp_all add: log_call_def)

lemma send_fields:
  "ended (send c e s) = ended s"
  "length_est (send c e s) = length_est s"
  "listeners (send c e s) = listeners s"
  "stream (send c e s) = stream s"
  "headers (res (send c e s)) = headers (res s)"
  "header_sent (res (send c e s)) = header_sent (res s)"
  "finished (res (send c e s)) = finished (res s)"
  "destroyed (res (send c e s)) = destroyed (res s)"
  "wire (res (send c e s)) = wire (res s) @ [(c, e)]"
  "calls (res (send c e s)) = calls (res s)"
  "handlers (res (send c e s)) = handlers (res s)"
  by (simp_all add: send_def)

lemma orig_write_sent:
  "header_sent (res s) \<Longrightarrow>
   orig_write E opts req s chunk encoding callback =
     (case write_check (finished (res s)) (destroyed (res s)) chunk of
        Some e \<Rightarrow> (Some e, log_call (CallWrite chunk encoding callback) s)
      | None \<Rightarrow> (None, send chunk encoding (log_call (CallWrite chunk encoding callback) s)))"
  by (simp add: orig_write_def Let_def log_call_fields ensure_header_sent split: option.splits)

lemma orig_end_sent:
  "header_sent (res s) \<Longrightarrow>
   orig_end E opts req s chunk encoding callback =
     (let s0 = log_call (CallEnd chunk encoding callback) s in
      if truthy chunk then
        (if finished (res s) then (Some ERR_STREAM_WRITE_AFTER_END, s0)
         else if \<not> (is_string chunk \<or> isUint8Array chunk) then (Some ERR_INVALID_ARG_TYPE, s0)
         else if destroyed (res s) then (None, finish s0)
         else (None, finish (send chunk encoding s0)))
      else if finished (res s) then
        (if is_function callback then Some ERR_STREAM_ALREADY_FINISHED else None, s0)
      else (None, finish s0))"
  by (simp add: orig_end_def Let_def log_call_fields ensure_header_sent)

lemma finish_fields:
  "ended (finish s) = ended s"
  "length_est (finish s) = length_est s"
  "listeners (finish s) = listeners s"
  "stream (finish s) = stream s"
  "headers (res (finish s)) = headers (res s)"
  "header_sent (res (finish s)) = header_sent (res s)"
  "finished (res (finish s))"
  "destroyed (res (finish s)) = destroyed (res s)"
  "wire (res (finish s)) = wire (res s)"
  "calls (res (finish s)) = calls (res s)"
  "handlers (res (finish s)) = handlers (res s)"
  by (simp_all add: finish_def set_finished_def)

lemma write_check_valid:
  "is_string chunk \<or> isUint8Array chunk \<Longrightarrow>
   write_check fin des chunk =
     (if fin then Some ERR_STREAM_WRITE_AFTER_END
      else if des then Some ERR_STREAM_DESTROYED else None)"
  by (cases chunk) (simp_all add: write_check_def)

lemma write_sent:
  assumes "header_sent (res s)" "is_string chunk \<or> isUint8Array chunk"
  shows "write' E opts req s chunk encoding callback =
     (if destroyed (res s) \<or> finished (res s) \<or> ended s then
        (Some (if destroyed (res s) then ERR_STREAM_DESTROYED else ERR_STREAM_WRITE_AFTER_END), s)
      else
        (case stream s of
           None \<Rightarrow>
             (None, send chunk (fst (write_args encoding callback))
                      (log_call (CallWrite chunk (fst (write_args encoding callback))
                                   (snd (write_args encoding callback))) s))
         | Some z \<Rightarrow>
             (case toBuffer E chunk (fst (write_args encoding callback)) of
                Inl e \<Rightarrow> (Some e, s)
              | Inr buf \<Rightarrow>
                  (fst (stream_write z buf (fst (write_args encoding callback))),
                   s\<lparr>stream := Some (snd (stream_write z buf (fst (write_args encoding callback))))\<rparr>))))"
proof -
  have n: "chunk \<noteq> Null" using assms(2) by (cases chunk) simp_all
  show ?thesis
    unfolding write'_def Let_def
    using assms n
    by (simp add: ensure_header_sent orig_write_sent write_check_valid ServerResponse_def
             split: option.splits)
qed

lemma set_finished_fields:
  "ended (set_finished b s) = ended s"
  "length_est (set_finished b s) = length_est s"
  "listeners (set_finished b s) = listeners s"
  "stream (set_finished b s) = stream s"
  "headers (res (set_finished b s)) = headers (res s)"
  "header_sent (res (set_finished b s)) = header_sent (res s)"
  "finished (res (set_finished b s)) = b"
  "destroyed (res (set_finished b s)) = destroyed (res s)"
  "wire (res (set_finished b s)) = wire (res s)"
  "calls (res (set_finished b s)) = calls (res s)"
  "handlers (res (set_finished b s)) = handlers (res s)"
  by (simp_all add: set_finished_def)

lemma end_sent:
  assumes "header_sent (res s)"
  shows "end' E opts req s chunk0 encoding0 callback0 =
     (if destroyed (res s) \<or> finished (res s) \<or> ended s then
        orig_end E opts req (set_finished (ended s) s)
          (fst (end_args chunk0 encoding0 callback0))
          (fst (snd (end_args chunk0 encoding0 callback0)))
          (snd (snd (end_args chunk0 encoding0 callback0)))
      else
        (case stream s of
           None \<Rightarrow>
             orig_end E opts req s
               (fst (end_args chunk0 encoding0 callback0))
               (fst (snd (end_args chunk0 encoding0 callback0)))
               (snd (snd (end_args chunk0 encoding0 callback0)))
         | Some z \<Rightarrow>
             (if truthy (fst (end_args chunk0 encoding0 callback0)) then
                (case toBuffer E (fst (end_args chunk0 encoding0 callback0))
                        (fst (snd (end_args chunk0 encoding0 callback0))) of
                   Inl e \<Rightarrow> (Some e, s\<lparr>ended := True\<rparr>)
                 | Inr buf \<Rightarrow>
                     (fst (stream_end z (Some (buf, fst (snd (end_args chunk0 encoding0 callback0))))),
                      s\<lparr>ended := True,
                        stream := Some (snd (stream_end z
                           (Some (buf, fst (snd (end_args chunk0 encoding0 callback0))))))\<rparr>))
              else (fst (stream_end z None),
                    s\<lparr>ended := True, stream := Some (snd (stream_end z None))\<rparr>))))"
  unfolding end'_def Let_def
  using assms by (simp split: option.splits)

lemma orig_end_sent_keeps:
  assumes "header_sent (res s)"
  shows "header_sent (res (snd (orig_end E opts req s c e cb))) \<and>
         listeners (snd (orig_end E opts req s c e cb)) = listeners s \<and>
         stream (snd (orig_end E opts req s c e cb)) = stream s \<and>
         ended (snd (orig_end E opts req s c e cb)) = ended s \<and>
         headers (res (snd (orig_end E opts req s c e cb))) = headers (res s)"
  using assms
  by (simp add: orig_end_sent Let_def log_call_fields send_fields finish_fields
           split: option.splits)

lemma write_sent_keeps:
  assumes "header_sent (res s)"
  shows "header_sent (res (snd (write' E opts req s c e cb))) \<and>
         listeners (snd (write' E opts req s c e cb)) = listeners s \<and>
         (stream (snd (write' E opts req s c e cb)) = None) = (stream s = None) \<and>
         headers (res (snd (write' E opts req s c e cb))) = headers (res s)"
proof (cases "is_string c \<or> isUint8Array c")
  case True
  show ?thesis
    using assms True
    by (simp add: write_sent log_call_fields send_fields split: option.splits sum.splits)
next
  case False
  then have "c = Null \<or> \<not> (is_string c \<or> isUint8Array c)" by simp
  then have w: "write' E opts req s c e cb = orig_write E opts req s c e cb"
    unfolding write'_def by (cases "c = Null") simp_all
  have k: "write_check (finished (res s)) (destroyed (res s)) c \<noteq> None"
    using False by (simp add: write_check_def)
  show ?thesis
    using assms k by (simp add: w orig_write_sent log_call_fields send_fields split: option.splits)
qed

lemma end_sent_keeps:
  assumes "header_sent (res s)"
  shows "header_sent (res (snd (end' E opts req s c e cb))) \<and>
         listeners (snd (end' E opts req s c e cb)) = listeners s \<and>
         (stream (snd (end' E opts req s c e cb)) = None) = (stream s = None) \<and>
         headers (res (snd (end' E opts req s c e cb))) = headers (res s)"
proof -
  have f: "header_sent (res (set_finished (ended s) s))"
    using assms by (simp add: set_finished_fields)
  show ?thesis
    using assms orig_end_sent_keeps [OF f, of E opts req]  orig_end_sent_keeps [OF assms, of E opts req]
    by (simp add: end_sent set_finished_fields split: option.splits sum.splits)
qed

lemma on_keeps:
  "header_sent (res (on s t l)) = header_sent (res s) \<and>
   (stream (on s t l) = None) = (stream s = None) \<and>
   (listeners (on s t l) = None) = (listeners s = None) \<and>
   headers (res (on s t l)) = headers (res s)"
  by (simp add: on_def orig_on_fields split: option.splits)

lemma flush_keeps:
  "res (flush s) = res s \<and> listeners (flush s) = listeners s \<and>
   (stream (flush s) = None) = (stream s = None)"
  by (simp add: flush_def split: option.splits)

lemma engine_decline_result:
  assumes "listeners s = Some xs"
    and "\<not> (eligible E opts req s \<and> acceptable (negotiate E req))"
  shows "\<exists>r'. onResponseHeaders E opts req s = (None, s\<lparr>res := r', listeners := None\<rparr>) \<and>
           header_sent r' = header_sent (res s) \<and> finished r' = finished (res s) \<and>
           destroyed r' = destroyed (res s) \<and> calls r' = calls (res s) \<and>
           wire r' = wire (res s) \<and>
           (\<forall>m. lowercase m \<noteq> ''vary'' \<longrightarrow> getHeader r' m = getHeader (res s) m) \<and>
           (\<not> filter_fn E opts req (res s) \<or> \<not> shouldTransform req (res s) \<longrightarrow>
              headers r' = headers (res s))"
proof (cases "filter_fn E opts req (res s) \<and> shouldTransform req (res s)")
  case False
  then have e: "onResponseHeaders E opts req s = nocompress s"
    by (auto simp: engine_filtered)
  show ?thesis
    using assms(1)
    by (intro exI [of _ "register_all orig_on xs (res s)"])
       (simp add: e nocompress_Some register_all_res getHeader_def)
next
  case True
  let ?s1 = "s\<lparr>res := vary (res s) ''Accept-Encoding''\<rparr>"
  have d: "below_threshold E opts s \<or> already_encoded (res s) \<or> rmethod req = ''HEAD'' \<or>
           \<not> acceptable (negotiate E req)"
    using True assms(2) by (auto simp: eligible_def)
  have e: "onResponseHeaders E opts req s = nocompress ?s1"
    using True d by (simp add: engine_declined)
  have l: "listeners ?s1 = Some xs" using assms(1) by simp
  have g: "\<forall>m. lowercase m \<noteq> ''vary'' \<longrightarrow>
             getHeader (register_all orig_on xs (vary (res s) ''Accept-Encoding'')) m =
             getHeader (res s) m"
    using getHeader_vary [of _ "res s" "''Accept-Encoding''"]
    by (simp add: getHeader_def register_all_res)
  show ?thesis
    using True g
    by (intro exI [of _ "register_all orig_on xs (vary (res s) ''Accept-Encoding'')"])
       (simp add: e nocompress_Some [OF l] register_all_res vary_fields)
qed

lemma engine_ok: "listeners s \<noteq> None \<Longrightarrow> fst (onResponseHeaders E opts req s) = None"
proof -
  assume "listeners s \<noteq> None"
  then obtain xs where l: "listeners s = Some xs" by auto
  show ?thesis
  proof (cases "eligible E opts req s \<and> acceptable (negotiate E req)")
    case False
    then show ?thesis using engine_decline_result [OF l False] by auto
  next
    case True
    then obtain m where m: "negotiate E req = Some m"
      by (auto simp: acceptable_def split: option.splits)
    show ?thesis using True m l by (simp add: engine_accepted)
  qed
qed

lemma implicitHeader_ok:
  assumes "listeners s \<noteq> None"
  shows "fst (implicitHeader E opts req s) = None \<and>
         header_sent (res (snd (implicitHeader E opts req s)))"
  using engine_ok [OF assms, of E opts req]
  by (cases "onResponseHeaders E opts req s") (simp add: implicitHeader_def)

lemma ensure_header_ok:
  assumes "coherent s"
  shows "fst (ensure_header E opts req s) = None \<and>
         header_sent (res (snd (ensure_header E opts req s)))"
proof (cases "header_sent (res s)")
  case True
  then show ?thesis by (simp add: ensure_header_sent)
next
  case False
  then have "listeners s \<noteq> None" using assms by (simp add: coherent_def)
  then show ?thesis using False implicitHeader_ok by (simp add: ensure_header_def)
qed

lemma orig_write_coherent:
  assumes "coherent s"
  shows "coherent (snd (orig_write E opts req s c e cb))"
proof -
  let ?s0 = "log_call (CallWrite c e cb) s"
  have b0: "coherent ?s0" using assms by (simp add: coherent_def log_call_fields)
  obtain s1 where eh: "ensure_header E opts req ?s0 = (None, s1)" and hs: "header_sent (res s1)"
    using ensure_header_ok [OF b0, of E opts req]
    by (cases "ensure_header E opts req ?s0") auto
  show ?thesis
    using b0 hs
    by (simp add: orig_write_def Let_def eh coherent_def send_fields split: option.splits)
qed

lemma orig_end_coherent:
  assumes "coherent s"
  shows "coherent (snd (orig_end E opts req s c e cb))"
proof -
  let ?s0 = "log_call (CallEnd c e cb) s"
  have b0: "coherent ?s0" using assms by (simp add: coherent_def log_call_fields)
  obtain s1 where eh: "ensure_header E opts req ?s0 = (None, s1)" and hs: "header_sent (res s1)"
    using ensure_header_ok [OF b0, of E opts req]
    by (cases "ensure_header E opts req ?s0") auto
  show ?thesis
    using b0 hs
    by (simp add: orig_end_def Let_def eh coherent_def send_fields finish_fields
             split: option.splits)
qed

lemma coherent_sent: "header_sent (res s) \<Longrightarrow> coherent s"
  by (simp add: coherent_def)

lemma write_invalid_eq:
  "c = Null \<or> \<not> (is_string c \<or> isUint8Array c) \<Longrightarrow>
   write' E opts req s c e cb = orig_write E opts req s c e cb"
  unfolding write'_def by (cases "c = Null") simp_all

lemma write_valid_unfold:
  assumes "is_string c \<or> isUint8Array c"
  shows "write' E opts req s c e cb =
     (if destroyed (res s) \<or> finished (res s) \<or> ended s then
        (Some (if destroyed (res s) then ERR_STREAM_DESTROYED else ERR_STREAM_WRITE_AFTER_END), s)
      else
        (case ensure_header E opts req s of
           (Some err, s1) \<Rightarrow> (Some err, s1)
         | (None, s1) \<Rightarrow>
             (case stream s1 of
                Some z \<Rightarrow>
                  (case toBuffer E c (fst (write_args e cb)) of
                     Inl err \<Rightarrow> (Some err, s1)
                   | Inr buf \<Rightarrow>
                       (fst (stream_write z buf (fst (write_args e cb))),
                        s1\<lparr>stream := Some (snd (stream_write z buf (fst (write_args e cb))))\<rparr>))
              | None \<Rightarrow>
                  orig_write E opts req s1 c (fst (write_args e cb)) (snd (write_args e cb)))))"
proof -
  have n: "c \<noteq> Null" using assms by (cases c) simp_all
  show ?thesis
    unfolding write'_def Let_def
    using assms n by (simp add: write_check_valid ServerResponse_def)
qed

lemma write_coherent:
  assumes "coherent s"
  shows "coherent (snd (write' E opts req s c e cb))"
proof (cases "is_string c \<or> isUint8Array c")
  case False
  then show ?thesis using assms by (simp add: write_invalid_eq orig_write_coherent)
next
  case True
  obtain s1 where eh: "ensure_header E opts req s = (None, s1)" and hs: "header_sent (res s1)"
    using ensure_header_ok [OF assms, of E opts req]
    by (cases "ensure_header E opts req s") auto
  have b1: "coherent s1" using hs by (rule coherent_sent)
  have bz: "\<And>x. coherent (s1\<lparr>stream := x\<rparr>)" using hs by (simp add: coherent_sent)
  show ?thesis
    using assms b1 bz orig_write_coherent [OF b1, of E opts req]
    by (simp add: write_valid_unfold [OF True] eh split: option.splits sum.splits)
qed

lemma estimate_keeps:
  "res (snd (estimate E s c e)) = res s \<and> stream (snd (estimate E s c e)) = stream s \<and>
   listeners (snd (estimate E s c e)) = listeners s \<and> ended (snd (estimate E s c e)) = ended s"
  by (simp add: estimate_def split: sum.splits)

lemma end_coherent:
  assumes "coherent s"
  shows "coherent (snd (end' E opts req s c e cb))"
proof (cases "header_sent (res s)")
  case True
  then show ?thesis using end_sent_keeps [OF True, of E opts req c e cb]
    by (simp add: coherent_def)
next
  case False
  let ?c = "fst (end_args c e cb)"
  let ?e = "fst (snd (end_args c e cb))"
  let ?cb = "snd (snd (end_args c e cb))"
  have l: "listeners s \<noteq> None" and z: "stream s = None"
    using assms False by (simp_all add: coherent_def)
  have bf: "coherent (set_finished (ended s) s)"
    using assms by (simp add: coherent_def set_finished_fields)
  show ?thesis
  proof (cases "destroyed (res s) \<or> finished (res s) \<or> ended s")
    case True
    then show ?thesis
      unfolding end'_def Let_def
      using orig_end_coherent [OF bf, of E opts req ?c ?e ?cb] by simp
  next
    case live: False
    show ?thesis
    proof (cases "estimate E s ?c ?e")
      case (Pair r s')
      have k: "res s' = res s" "stream s' = None" "listeners s' \<noteq> None"
        using estimate_keeps [of E s ?c ?e] l z by (simp_all add: Pair)
      show ?thesis
      proof (cases r)
        case (Some err)
        show ?thesis
          unfolding end'_def Let_def
          using live False k by (simp add: Pair Some coherent_def)
      next
        case None
        obtain s1 where ih: "implicitHeader E opts req s' = (None, s1)"
          and hs: "header_sent (res s1)"
          using implicitHeader_ok [OF k(3), of E opts req]
          by (cases "implicitHeader E opts req s'") auto
        have b1: "coherent s1" using hs by (simp add: coherent_def)
        show ?thesis
          unfolding end'_def Let_def
          using live False hs orig_end_coherent [OF b1, of E opts req ?c ?e ?cb]
          by (simp add: Pair None ih coherent_def split: option.splits sum.splits)
      qed
    qed
  qed
qed

lemma step_coherent: "coherent s \<Longrightarrow> coherent (snd (step E opts req s c))"
proof (cases c)
  case (Write x1 x2 x3)
  assume "coherent s"
  then show ?thesis by (simp add: Write write_coherent)
next
  case (End x1 x2 x3)
  assume "coherent s"
  then show ?thesis by (simp add: End end_coherent)
next
  case (On x1 x2)
  assume "coherent s"
  then show ?thesis using on_keeps [of s x1 x2] by (simp add: On coherent_def)
next
  case Flush
  assume "coherent s"
  then show ?thesis using flush_keeps [of s] by (simp add: Flush coherent_def)
qed

lemma run_coherent: "coherent s \<Longrightarrow> coherent (run E opts req s cs)"
  by (induction cs arbitrary: s) (simp_all add: step_coherent)

lemma coherent_compression: "coherent (compression r)"
  by (simp add: coherent_def compression_def)

lemma new_stream_fields:
  "zmethod (new_stream opts m) =
     (if m = ''br'' then Brotli else if m = ''gzip'' then Gzip else Deflate)"
  "zoptions (new_stream opts m) = (if m = ''br'' then None else Some opts)"
  "zinput (new_stream opts m) = []"
  "zflushes (new_stream opts m) = 0"
  "zended (new_stream opts m) = False"
  by (simp_all add: new_stream_def createBrotliCompress_def createGzip_def createDeflate_def)

lemma accept_path:
  assumes "eligible E opts req s" "negotiate E req = Some m" "acceptable (Some m)"
    and "listeners s = Some xs"
  shows "fst (onResponseHeaders E opts req s) = None"
    and "map_option zmethod (stream (snd (onResponseHeaders E opts req s))) =
           Some (if m = ''br'' then Brotli else if m = ''gzip'' then Gzip else Deflate)"
    and "map_option zoptions (stream (snd (onResponseHeaders E opts req s))) =
           Some (if m = ''br'' then None else Some opts)"
    and "getHeader (res (snd (onResponseHeaders E opts req s))) ''Content-Encoding'' =
           Some (HStr m)"
    and "getHeader (res (snd (onResponseHeaders E opts req s))) ''Content-Length'' = None"
    and "getHeader (res (snd (onResponseHeaders E opts req s))) ''Vary'' =
           getHeader (vary (res s) ''Accept-Encoding'') ''Vary''"
    and "listeners (snd (onResponseHeaders E opts req s)) = Some xs"
    and "map_option zhandlers (stream (snd (onResponseHeaders E opts req s))) =
           Some (map (\<lambda>p. (fst p, Listener (snd p))) xs @
                 [(JStr ''data'', onStreamData), (JStr ''end'', onStreamEnd)])"
  using assms(4)
  by (simp_all add: engine_accepted [OF assms] stream_on_fields register_all_stream
        new_stream_fields getHeader_orig_on getHeader_removeHeader getHeader_setHeader
        lowercase_names createBrotliCompress_def createGzip_def createDeflate_def new_stream_def)

lemma implicitHeader_decided:
  assumes "listeners s = Some xs" "stream s = None"
  shows "fst (implicitHeader E opts req s) = None"
    and "header_sent (res (snd (implicitHeader E opts req s)))"
    and "stream (snd (implicitHeader E opts req s)) = None \<longrightarrow>
           listeners (snd (implicitHeader E opts req s)) = None"
    and "stream (snd (implicitHeader E opts req s)) \<noteq> None \<longrightarrow>
           listeners (snd (implicitHeader E opts req s)) = Some xs"
proof -
  have l: "listeners s \<noteq> None" using assms(1) by simp
  show "fst (implicitHeader E opts req s) = None"
    and "header_sent (res (snd (implicitHeader E opts req s)))"
    using implicitHeader_ok [OF l, of E opts req] by simp_all
  obtain s1 where e: "onResponseHeaders E opts req s = (None, s1)"
    using engine_ok [OF l, of E opts req] by (cases "onResponseHeaders E opts req s") auto
  have i: "snd (implicitHeader E opts req s) = s1\<lparr>res := (res s1)\<lparr>header_sent := True\<rparr>\<rparr>"
    by (simp add: implicitHeader_def e)
  have k: "(stream s1 = None \<longrightarrow> listeners s1 = None) \<and>
           (stream s1 \<noteq> None \<longrightarrow> listeners s1 = Some xs)"
  proof (cases "eligible E opts req s \<and> acceptable (negotiate E req)")
    case False
    then show ?thesis
      using engine_decline_result [OF assms(1) False] e assms(2) by auto
  next
    case True
    then obtain m where m: "negotiate E req = Some m"
      by (auto simp: acceptable_def split: option.splits)
    have el: "eligible E opts req s" and ac: "acceptable (Some m)" using True m by simp_all
    show ?thesis
      using e engine_accepted [OF el m ac assms(1)] assms(1) by auto
  qed
  show "stream (snd (implicitHeader E opts req s)) = None \<longrightarrow>
           listeners (snd (implicitHeader E opts req s)) = None"
    and "stream (snd (implicitHeader E opts req s)) \<noteq> None \<longrightarrow>
           listeners (snd (implicitHeader E opts req s)) = Some xs"
    using k by (simp_all add: i)
qed

lemma step_decided:
  assumes "header_sent (res s)" "(listeners s = None) = (stream s = None)"
  shows "header_sent (res (snd (step E opts req s c))) \<and>
         listeners (snd (step E opts req s c)) = listeners s \<and>
         (stream (snd (step E opts req s c)) = None) = (stream s = None)"
proof (cases c)
  case (Write x1 x2 x3)
  then show ?thesis using write_sent_keeps [OF assms(1), of E opts req x1 x2 x3] by simp
next
  case (End x1 x2 x3)
  then show ?thesis using end_sent_keeps [OF assms(1), of E opts req x1 x2 x3] by simp
next
  case (On x1 x2)
  have "listeners (on s x1 x2) = listeners s"
    using assms(2) by (auto simp: on_def split: option.splits)
  then show ?thesis using on_keeps [of s x1 x2] assms(1) by (simp add: On)
next
  case Flush
  then show ?thesis using flush_keeps [of s] assms(1) by simp
qed

lemma run_decided:
  assumes "header_sent (res s)" "(listeners s = None) = (stream s = None)"
  shows "header_sent (res (run E opts req s cs)) \<and>
         listeners (run E opts req s cs) = listeners s \<and>
         (stream (run E opts req s cs) = None) = (stream s = None)"
  using assms
proof (induction cs arbitrary: s)
  case Nil
  then show ?case by simp
next
  case (Cons c cs)
  let ?s1 = "snd (step E opts req s c)"
  have k: "header_sent (res ?s1) \<and> listeners ?s1 = listeners s \<and>
           (stream ?s1 = None) = (stream s = None)"
    using step_decided [OF Cons.prems, of E opts req c] .
  then have p: "header_sent (res ?s1)" "(listeners ?s1 = None) = (stream ?s1 = None)"
    using Cons.prems(2) by auto
  show ?case using Cons.IH [OF p] k by simp
qed

lemma on_decided:
  assumes "(listeners s = None) = (stream s = None)"
  shows "listeners (on s t l) = listeners s"
    and "on s (JStr ''drain'') l =
           (case stream s of
              None \<Rightarrow> s\<lparr>res := orig_on (res s) (JStr ''drain'') (Listener l)\<rparr>
            | Some z \<Rightarrow> s\<lparr>stream := Some (stream_on z (JStr ''drain'') (Listener l))\<rparr>)"
  using assms by (auto simp: on_def split: option.splits)

lemma engine_stream_None:
  assumes "stream s = None"
  shows "(stream (snd (onResponseHeaders E opts req s)) = None) =
         (\<not> (eligible E opts req s \<and> acceptable (negotiate E req)))"
proof (cases "eligible E opts req s \<and> acceptable (negotiate E req)")
  case True
  then obtain m where m: "negotiate E req = Some m"
    by (auto simp: acceptable_def split: option.splits)
  have el: "eligible E opts req s" and ac: "acceptable (Some m)" using True m by simp_all
  show ?thesis
  proof (cases "listeners s")
    case None
    show ?thesis using True by (simp add: engine_accepted_unbuffered [OF el m ac None])
  next
    case (Some xs)
    show ?thesis using True by (simp add: engine_accepted [OF el m ac Some])
  qed
next
  case False
  have "onResponseHeaders E opts req s = nocompress s \<or>
        onResponseHeaders E opts req s = nocompress (s\<lparr>res := vary (res s) ''Accept-Encoding''\<rparr>)"
  proof (cases "filter_fn E opts req (res s) \<and> shouldTransform req (res s)")
    case f: False
    then show ?thesis by (auto simp: engine_filtered)
  next
    case t: True
    have "below_threshold E opts s \<or> already_encoded (res s) \<or> rmethod req = ''HEAD'' \<or>
           \<not> acceptable (negotiate E req)"
      using t False by (auto simp: eligible_def)
    then show ?thesis using t by (simp add: engine_declined)
  qed
  then show ?thesis using False assms nocompress_keeps by auto
qed

lemma unknown_size_not_below:
  "getHeader (res s) ''Content-Length'' = None \<Longrightarrow> length_est s = None \<Longrightarrow>
   \<not> below_threshold E opts s"
  by (simp add: below_threshold_def)

lemma engine_method:
  assumes "eligible E opts req s" "listeners s = Some xs" "stream s = None"
  shows "map_option zmethod (stream (snd (onResponseHeaders E opts req s))) =
     (case negotiate E req of
        None \<Rightarrow> None
      | Some m \<Rightarrow>
          if m = [] \<or> m = ''identity'' then None
          else Some (if m = ''br'' then Brotli else if m = ''gzip'' then Gzip else Deflate))"
proof (cases "acceptable (negotiate E req)")
  case True
  then obtain m where m: "negotiate E req = Some m"
    by (auto simp: acceptable_def split: option.splits)
  have ac: "acceptable (Some m)" using True m by simp
  show ?thesis
    using accept_path(2) [OF assms(1) m ac assms(2)] ac by (simp add: m acceptable_def)
next
  case False
  have "stream (snd (onResponseHeaders E opts req s)) = None"
    using engine_stream_None [OF assms(3), of E opts req] False by simp
  then show ?thesis using False by (auto simp: acceptable_def split: option.splits)
qed

lemma split_comma_nonempty: "split_comma s \<noteq> []"
  by (induction s) (auto split: list.splits)

lemma split_comma_append:
  "split_comma (a @ CHR '','' # b) = split_comma a @ split_comma b"
proof (induction a)
  case Nil
  show ?case by simp
next
  case (Cons c a)
  obtain t ts where t: "split_comma a = t # ts"
    using split_comma_nonempty [of a] by (cases "split_comma a") auto
  show ?case by (simp add: Cons.IH t)
qed

lemma vary_parse_append:
  "vary_parse (a @ CHR '','' # b) = vary_parse a @ vary_parse b"
  by (simp add: vary_parse_def split_comma_append)

lemma vary_parse_field:
  "vary_parse ''Accept-Encoding'' = [''Accept-Encoding'']"
  "vary_parse '' accept-encoding'' = [''accept-encoding'']"
  "vary_parse ''accept-encoding'' = [''accept-encoding'']"
  "vary_parse ''*'' = [''*'']"
  "vary_parse [] = [[]]"
  by (simp_all add: vary_parse_def strip_spaces_def)

lemma lowercase_more:
  "lowercase ''Accept-Encoding'' = ''accept-encoding''"
  "lowercase ''*'' = ''*''"
  "lowercase '', '' = '', ''"
  by (simp_all add: lowercase_def lower_char_def)

lemma vary_append_accept_encoding:
  "vary_append h ''Accept-Encoding'' \<noteq> [] \<and>
   (''accept-encoding'' \<in> set (vary_parse (lowercase (vary_append h ''Accept-Encoding''))) \<or>
    ''*'' \<in> set (vary_parse (lowercase (vary_append h ''Accept-Encoding''))))"
proof (cases "''*'' \<in> set (vary_parse (lowercase h))")
  case True
  then have "vary_append h ''Accept-Encoding'' = ''*''"
    by (simp add: vary_append_def Let_def)
  then show ?thesis by (simp add: lowercase_more vary_parse_field)
next
  case star: False
  show ?thesis
  proof (cases "''accept-encoding'' \<in> set (vary_parse (lowercase h))")
    case True
    have v: "vary_append h ''Accept-Encoding'' = h"
      using star True by (simp add: vary_append_def Let_def vary_parse_field lowercase_more)
    have "h \<noteq> []"
    proof
      assume "h = []"
      then show False using True by (simp add: lowercase_def vary_parse_field)
    qed
    then show ?thesis using True by (simp add: v)
  next
    case False
    have v: "vary_append h ''Accept-Encoding'' =
             (if h \<noteq> [] then h @ '', '' @ ''Accept-Encoding'' else ''Accept-Encoding'')"
      using star False by (simp add: vary_append_def Let_def vary_parse_field lowercase_more)
    show ?thesis
    proof (cases "h = []")
      case True
      with v have "vary_append h ''Accept-Encoding'' = ''Accept-Encoding''" by simp
      then show ?thesis by (simp add: lowercase_more vary_parse_field)
    next
      case h: False
      have "lowercase (h @ '', '' @ ''Accept-Encoding'') =
            lowercase h @ CHR '','' # '' accept-encoding''"
        by (simp add: lowercase_def lower_char_def)
      then have "vary_parse (lowercase (h @ '', '' @ ''Accept-Encoding'')) =
            vary_parse (lowercase h) @ [''accept-encoding'']"
        by (simp only: vary_parse_append vary_parse_field)
      then show ?thesis using h by (simp add: v)
    qed
  qed
qed

lemma vary_accept_encoding:
  "getHeader (vary r ''Accept-Encoding'') ''Vary'' =
     Some (HStr (vary_append
        (case getHeader r ''Vary'' of
           Some (HArr xs) \<Rightarrow> join_comma_space xs
         | _ \<Rightarrow> if htruthy (getHeader r ''Vary'') then hstring (the (getHeader r ''Vary'')) else [])
        ''Accept-Encoding''))"
  using vary_append_accept_encoding
  by (simp add: vary_def Let_def getHeader_setHeader)

lemma vary_lists_accept_encoding:
  "lists_field (getHeader (vary r ''Accept-Encoding'') ''Vary'') ''Accept-Encoding''"
  using vary_append_accept_encoding
  by (simp add: vary_accept_encoding lists_field_def lowercase_more)

lemma engine_vary:
  assumes "filter_fn E opts req (res s)" "shouldTransform req (res s)"
  shows "getHeader (res (snd (onResponseHeaders E opts req s))) ''Vary'' =
         getHeader (vary (res s) ''Accept-Encoding'') ''Vary''"
proof (cases "eligible E opts req s \<and> acceptable (negotiate E req)")
  case True
  then obtain m where m: "negotiate E req = Some m"
    by (auto simp: acceptable_def split: option.splits)
  have el: "eligible E opts req s" and ac: "acceptable (Some m)" using True m by simp_all
  show ?thesis
  proof (cases "listeners s")
    case None
    show ?thesis by (simp add: engine_accepted_unbuffered [OF el m ac None])
  next
    case (Some xs)
    show ?thesis by (rule accept_path(6) [OF el m ac Some])
  qed
next
  case False
  have "below_threshold E opts s \<or> already_encoded (res s) \<or> rmethod req = ''HEAD'' \<or>
           \<not> acceptable (negotiate E req)"
    using assms False by (auto simp: eligible_def)
  then have "onResponseHeaders E opts req s =
             nocompress (s\<lparr>res := vary (res s) ''Accept-Encoding''\<rparr>)"
    using assms by (simp add: engine_declined)
  then show ?thesis by (simp add: getHeader_nocompress)
qed

lemma passthrough_write:
  assumes "passthrough s" "valid_chunk c"
  shows "passthrough (snd (write' E opts req s c e cb))"
    and "wire (res (snd (write' E opts req s c e cb))) =
           wire (res s) @ [(c, fst (write_args e cb))]"
    and "headers (res (snd (write' E opts req s c e cb))) = headers (res s)"
    and "fst (write' E opts req s c e cb) = None"
proof -
  have h: "header_sent (res s)" and v: "is_string c \<or> isUint8Array c"
    using assms by (simp_all add: passthrough_def valid_chunk_def)
  have w: "write' E opts req s c e cb =
        (None, send c (fst (write_args e cb))
                 (log_call (CallWrite c (fst (write_args e cb)) (snd (write_args e cb))) s))"
    using assms(1) by (simp add: write_sent [OF h v] passthrough_def)
  show "passthrough (snd (write' E opts req s c e cb))"
    using assms(1) by (simp add: w passthrough_def send_fields log_call_fields)
  show "wire (res (snd (write' E opts req s c e cb))) =
           wire (res s) @ [(c, fst (write_args e cb))]"
    by (simp add: w send_fields log_call_fields)
  show "headers (res (snd (write' E opts req s c e cb))) = headers (res s)"
    by (simp add: w send_fields log_call_fields)
  show "fst (write' E opts req s c e cb) = None" by (simp add: w)
qed

lemma passthrough_writes:
  assumes "passthrough s" "\<forall>w \<in> set ws. valid_chunk (fst w)"
  shows "passthrough (run E opts req s (map (\<lambda>w. Write (fst w) (fst (snd w)) (snd (snd w))) ws)) \<and>
         wire (res (run E opts req s (map (\<lambda>w. Write (fst w) (fst (snd w)) (snd (snd w))) ws))) =
           wire (res s) @ written ws \<and>
         headers (res (run E opts req s (map (\<lambda>w. Write (fst w) (fst (snd w)) (snd (snd w))) ws))) =
           headers (res s)"
  using assms
proof (induction ws arbitrary: s)
  case Nil
  then show ?case by (simp add: written_def)
next
  case (Cons w ws)
  have v: "valid_chunk (fst w)" using Cons.prems(2) by simp
  note p = passthrough_write [OF Cons.prems(1) v, of E opts req "fst (snd w)" "snd (snd w)"]
  have r: "\<forall>w \<in> set ws. valid_chunk (fst w)" using Cons.prems(2) by simp
  show ?case
    using Cons.IH [OF p(1) r] p(2) p(3) by (simp add: written_def)
qed

lemma run_append: "run E opts req s (xs @ ys) = run E opts req (run E opts req s xs) ys"
  by (induction xs arbitrary: s) simp_all

lemma passthrough_end:
  assumes "passthrough s"
    and "\<not> truthy (fst (end_args c e cb)) \<or> valid_chunk (fst (end_args c e cb))"
  shows "wire (res (snd (end' E opts req s c e cb))) = wire (res s) @ final_chunk c e cb"
    and "headers (res (snd (end' E opts req s c e cb))) = headers (res s)"
    and "stream (snd (end' E opts req s c e cb)) = None"
    and "finished (res (snd (end' E opts req s c e cb)))"
    and "fst (end' E opts req s c e cb) = None"
proof -
  have h: "header_sent (res s)" using assms(1) by (simp add: passthrough_def)
  have k: "truthy (fst (end_args c e cb)) \<longrightarrow>
           is_string (fst (end_args c e cb)) \<or> isUint8Array (fst (end_args c e cb))"
    using assms(2) by (auto simp: valid_chunk_def)
  have w: "end' E opts req s c e cb =
     (None, finish (if truthy (fst (end_args c e cb))
              then send (fst (end_args c e cb)) (fst (snd (end_args c e cb)))
                     (log_call (CallEnd (fst (end_args c e cb)) (fst (snd (end_args c e cb)))
                                 (snd (snd (end_args c e cb)))) s)
              else log_call (CallEnd (fst (end_args c e cb)) (fst (snd (end_args c e cb)))
                                 (snd (snd (end_args c e cb)))) s))"
    using assms(1) k
    by (simp add: end_sent [OF h] orig_end_sent [OF h] passthrough_def Let_def)
  show "wire (res (snd (end' E opts req s c e cb))) = wire (res s) @ final_chunk c e cb"
    by (simp add: w final_chunk_def finish_fields send_fields log_call_fields)
  show "headers (res (snd (end' E opts req s c e cb))) = headers (res s)"
    by (simp add: w finish_fields send_fields log_call_fields)
  show "stream (snd (end' E opts req s c e cb)) = None"
    using assms(1) by (simp add: w finish_fields send_fields log_call_fields passthrough_def)
  show "finished (res (snd (end' E opts req s c e cb)))"
    by (simp add: w finish_fields)
  show "fst (end' E opts req s c e cb) = None" by (simp add: w)
qed

lemma resolved_below:
  "js_less (resolved_size E s) (Fin (threshold E opts)) \<Longrightarrow> below_threshold E opts s"
  by (auto simp: resolved_size_def below_threshold_def split: option.splits)

lemma chunkLength_valid:
  "\<not> truthy c \<or> valid_chunk c \<Longrightarrow> \<exists>n. chunkLength E c e = Inr n"
  by (cases c) (auto simp: chunkLength_def valid_chunk_def Buffer_byteLength_def)

lemma estimate_valid:
  assumes "\<not> truthy c \<or> valid_chunk c"
  shows "fst (estimate E s c e) = None"
    and "res (snd (estimate E s c e)) = res s"
    and "stream (snd (estimate E s c e)) = stream s"
    and "listeners (snd (estimate E s c e)) = listeners s"
    and "ended (snd (estimate E s c e)) = ended s"
proof -
  obtain n where n: "chunkLength E c e = Inr n" using chunkLength_valid [OF assms] by blast
  show "fst (estimate E s c e) = None" by (simp add: estimate_def n)
  show "res (snd (estimate E s c e)) = res s" by (simp add: estimate_keeps)
  show "stream (snd (estimate E s c e)) = stream s" by (simp add: estimate_keeps)
  show "listeners (snd (estimate E s c e)) = listeners s" by (simp add: estimate_keeps)
  show "ended (snd (estimate E s c e)) = ended s" by (simp add: estimate_keeps)
qed

lemma decline_to_passthrough:
  assumes "listeners s = Some xs" "stream s = None" "\<not> ended s"
    and "\<not> finished (res s)" "\<not> destroyed (res s)"
    and "\<not> (eligible E opts req s \<and> acceptable (negotiate E req))"
  shows "\<exists>s1. implicitHeader E opts req s = (None, s1) \<and> passthrough s1 \<and>
           wire (res s1) = wire (res s) \<and>
           (\<forall>m. lowercase m \<noteq> ''vary'' \<longrightarrow> getHeader (res s1) m = getHeader (res s) m) \<and>
           (\<not> filter_fn E opts req (res s) \<or> \<not> shouldTransform req (res s) \<longrightarrow>
              headers (res s1) = headers (res s))"
proof -
  obtain r' where r': "onResponseHeaders E opts req s = (None, s\<lparr>res := r', listeners := None\<rparr>)"
    and f: "finished r' = finished (res s)" "destroyed r' = destroyed (res s)"
           "wire r' = wire (res s)"
    and g: "\<forall>m. lowercase m \<noteq> ''vary'' \<longrightarrow> getHeader r' m = getHeader (res s) m"
    and h: "\<not> filter_fn E opts req (res s) \<or> \<not> shouldTransform req (res s) \<longrightarrow>
              headers r' = headers (res s)"
    using engine_decline_result [OF assms(1) assms(6)] by blast
  let ?s1 = "s\<lparr>res := r'\<lparr>header_sent := True\<rparr>, listeners := None\<rparr>"
  have i: "implicitHeader E opts req s = (None, ?s1)"
    by (simp add: implicitHeader_def r')
  have p: "passthrough ?s1"
    using assms(2,3,4,5) f by (simp add: passthrough_def)
  have g': "\<forall>m. lowercase m \<noteq> ''vary'' \<longrightarrow> getHeader (res ?s1) m = getHeader (res s) m"
    using g by (simp add: getHeader_def)
  show ?thesis
    using i p f(3) g' h by (intro exI [of _ ?s1]) simp
qed

lemma write_first:
  assumes "valid_chunk c" "\<not> header_sent (res s)" "\<not> ended s"
    and "\<not> finished (res s)" "\<not> destroyed (res s)"
    and "implicitHeader E opts req s = (None, s1)" "passthrough s1"
  shows "write' E opts req s c e cb = write' E opts req s1 c e cb"
proof -
  have v: "is_string c \<or> isUint8Array c" using assms(1) by (simp add: valid_chunk_def)
  have e1: "ensure_header E opts req s = (None, s1)"
    using assms(2,6) by (simp add: ensure_header_def)
  have e2: "ensure_header E opts req s1 = (None, s1)"
    using assms(7) by (simp add: ensure_header_sent passthrough_def)
  show ?thesis
    using assms(3,4,5,7)
    by (simp add: write_valid_unfold [OF v] e1 e2 passthrough_def)
qed

lemma end_first:
  assumes "\<not> header_sent (res s)" "\<not> ended s" "\<not> finished (res s)" "\<not> destroyed (res s)"
    and "estimate E s (fst (end_args c e cb)) (fst (snd (end_args c e cb))) = (None, s')"
    and "implicitHeader E opts req s' = (None, s1)" "passthrough s1"
  shows "end' E opts req s c e cb = end' E opts req s1 c e cb"
proof -
  have h: "header_sent (res s1)" using assms(7) by (simp add: passthrough_def)
  have a: "end' E opts req s c e cb =
           orig_end E opts req s1 (fst (end_args c e cb)) (fst (snd (end_args c e cb)))
             (snd (snd (end_args c e cb)))"
    unfolding end'_def Let_def
    using assms(1,2,3,4,7) by (simp add: assms(5) assms(6) passthrough_def)
  show ?thesis
    using assms(7) by (simp add: a end_sent [OF h] passthrough_def)
qed

lemma run_body_calls:
  "run E opts req s (body_calls ws c e cb) =
     snd (end' E opts req
            (run E opts req s (map (\<lambda>w. Write (fst w) (fst (snd w)) (snd (snd w))) ws)) c e cb)"
  by (simp add: body_calls_def run_append)

lemma passthrough_run:
  assumes "passthrough s" "\<forall>w \<in> set ws. valid_chunk (fst w)"
    and "\<not> truthy (fst (end_args c e cb)) \<or> valid_chunk (fst (end_args c e cb))"
  shows "stream (run E opts req s (body_calls ws c e cb)) = None \<and>
         headers (res (run E opts req s (body_calls ws c e cb))) = headers (res s) \<and>
         wire (res (run E opts req s (body_calls ws c e cb))) =
           wire (res s) @ written ws @ final_chunk c e cb"
proof -
  let ?s2 = "run E opts req s (map (\<lambda>w. Write (fst w) (fst (snd w)) (snd (snd w))) ws)"
  note w = passthrough_writes [OF assms(1,2), of E opts req]
  have p: "passthrough ?s2" using w by simp
  note e = passthrough_end [OF p assms(3), of E opts req]
  show ?thesis using w e(1,2,3) by (simp add: run_body_calls)
qed

lemma declined_run:
  assumes "\<not> header_sent r" "\<not> finished r" "\<not> destroyed r"
    and "\<forall>w \<in> set ws. valid_chunk (fst w)"
    and "\<not> truthy (fst (end_args c e cb)) \<or> valid_chunk (fst (end_args c e cb))"
    and "\<not> (eligible E opts req (at_decision E r ws c e cb) \<and> acceptable (negotiate E req))"
  shows "stream (run E opts req (compression r) (body_calls ws c e cb)) = None \<and>
         wire (res (run E opts req (compression r) (body_calls ws c e cb))) =
           wire r @ written ws @ final_chunk c e cb \<and>
         (\<forall>m. lowercase m \<noteq> ''vary'' \<longrightarrow>
            getHeader (res (run E opts req (compression r) (body_calls ws c e cb))) m =
            getHeader r m) \<and>
         (\<not> filter_fn E opts req r \<or> \<not> shouldTransform req r \<longrightarrow>
            headers (res (run E opts req (compression r) (body_calls ws c e cb))) = headers r)"
proof -
  let ?s0 = "compression r"
  let ?sd = "at_decision E r ws c e cb"
  let ?c = "fst (end_args c e cb)"
  let ?e = "fst (snd (end_args c e cb))"
  note ev = estimate_valid [OF assms(5), of E ?s0 ?e]
  have sd: "res ?sd = r" "listeners ?sd = Some []" "stream ?sd = None" "\<not> ended ?sd"
    using ev by (simp_all add: at_decision_def compression_def)
  have live: "\<not> finished (res ?sd)" "\<not> destroyed (res ?sd)"
    using assms(2,3) sd(1) by simp_all
  obtain s1 where ih: "implicitHeader E opts req ?sd = (None, s1)" and p: "passthrough s1"
    and w: "wire (res s1) = wire r"
    and g: "\<forall>m. lowercase m \<noteq> ''vary'' \<longrightarrow> getHeader (res s1) m = getHeader r m"
    and h: "\<not> filter_fn E opts req r \<or> \<not> shouldTransform req r \<longrightarrow> headers (res s1) = headers r"
    using decline_to_passthrough [OF sd(2) sd(3) sd(4) live assms(6)] sd(1) by auto
  have fr: "\<not> header_sent (res ?s0)" "\<not> ended ?s0" "\<not> finished (res ?s0)"
           "\<not> destroyed (res ?s0)"
    using assms(1,2,3) by (simp_all add: compression_def)
  have same: "run E opts req ?s0 (body_calls ws c e cb) = run E opts req s1 (body_calls ws c e cb)"
  proof (cases ws)
    case Nil
    have est: "estimate E ?s0 ?c ?e = (None, ?sd)"
      using ev(1) by (cases "estimate E ?s0 ?c ?e") (simp add: at_decision_def Nil)
    show ?thesis
      using end_first [OF fr est ih p] by (simp add: Nil body_calls_def)
  next
    case (Cons a as)
    have v: "valid_chunk (fst a)" using assms(4) Cons by simp
    have d: "?sd = ?s0" by (simp add: at_decision_def Cons)
    have ih': "implicitHeader E opts req ?s0 = (None, s1)" using ih d by simp
    show ?thesis
      using write_first [OF v fr ih' p] by (simp add: Cons body_calls_def)
  qed
  note pr = passthrough_run [OF p assms(4,5), of E opts req]
  have hh: "\<forall>m. getHeader (res (run E opts req s1 (body_calls ws c e cb))) m = getHeader (res s1) m"
    using pr by (simp add: getHeader_def)
  show ?thesis
    using pr w g h hh by (simp add: same)
qed

lemma end_again:
  "destroyed (res s) \<or> finished (res s) \<or> ended s \<Longrightarrow>
   end' E opts req s c e cb =
     orig_end E opts req (set_finished (ended s) s)
       (fst (end_args c e cb)) (fst (snd (end_args c e cb))) (snd (snd (end_args c e cb)))"
  unfolding end'_def Let_def by simp

lemma end_args_callback: "is_function (snd (snd (end_args c e cb)))"
  by (simp add: end_args_def Let_def)

lemma second_end_when_ended:
  assumes "ended s" "header_sent (res s)"
  shows "fst (end' E opts req s c e cb) =
           Some (if truthy (fst (end_args c e cb)) then ERR_STREAM_WRITE_AFTER_END
                 else ERR_STREAM_ALREADY_FINISHED)"
proof -
  have h: "header_sent (res (set_finished True s))"
    using assms(2) by (simp add: set_finished_fields)
  have "end' E opts req s c e cb =
        orig_end E opts req (set_finished True s)
          (fst (end_args c e cb)) (fst (snd (end_args c e cb))) (snd (snd (end_args c e cb)))"
    using assms(1) by (simp add: end_again)
  then show ?thesis
    by (simp add: orig_end_sent [OF h] Let_def set_finished_fields end_args_callback)
qed

lemma removeHeader_handlers: "handlers (removeHeader r n) = handlers r"
  by (simp add: removeHeader_def)

lemma implicitHeader_replay:
  assumes "listeners s = Some xs" "stream s = None"
  shows "stream (snd (implicitHeader E opts req s)) = None \<longrightarrow>
           handlers (res (snd (implicitHeader E opts req s))) =
             handlers (res s) @ map (\<lambda>p. (fst p, Listener (snd p))) xs"
    and "stream (snd (implicitHeader E opts req s)) \<noteq> None \<longrightarrow>
           map_option zhandlers (stream (snd (implicitHeader E opts req s))) =
             Some (map (\<lambda>p. (fst p, Listener (snd p))) xs @
                   [(JStr ''data'', onStreamData), (JStr ''end'', onStreamEnd)]) \<and>
           handlers (res (snd (implicitHeader E opts req s))) =
             handlers (res s) @ [(JStr ''drain'', onResponseDrain)]"
proof -
  have l: "listeners s \<noteq> None" using assms(1) by simp
  obtain s1 where e: "onResponseHeaders E opts req s = (None, s1)"
    using engine_ok [OF l, of E opts req] by (cases "onResponseHeaders E opts req s") auto
  have i: "snd (implicitHeader E opts req s) = s1\<lparr>res := (res s1)\<lparr>header_sent := True\<rparr>\<rparr>"
    by (simp add: implicitHeader_def e)
  have k: "(stream s1 = None \<longrightarrow>
              handlers (res s1) = handlers (res s) @ map (\<lambda>p. (fst p, Listener (snd p))) xs) \<and>
           (stream s1 \<noteq> None \<longrightarrow>
              map_option zhandlers (stream s1) =
                Some (map (\<lambda>p. (fst p, Listener (snd p))) xs @
                      [(JStr ''data'', onStreamData), (JStr ''end'', onStreamEnd)]) \<and>
              handlers (res s1) = handlers (res s) @ [(JStr ''drain'', onResponseDrain)])"
  proof (cases "eligible E opts req s \<and> acceptable (negotiate E req)")
    case True
    then obtain m where m: "negotiate E req = Some m"
      by (auto simp: acceptable_def split: option.splits)
    have el: "eligible E opts req s" and ac: "acceptable (Some m)" using True m by simp_all
    have s1: "s1 = snd (onResponseHeaders E opts req s)" by (simp add: e)
    have h: "handlers (res s1) = handlers (res s) @ [(JStr ''drain'', onResponseDrain)]"
      unfolding s1
      by (simp add: engine_accepted [OF el m ac assms(1)] orig_on_fields removeHeader_handlers
            setHeader_fields vary_fields)
    have z: "map_option zhandlers (stream s1) =
               Some (map (\<lambda>p. (fst p, Listener (snd p))) xs @
                     [(JStr ''data'', onStreamData), (JStr ''end'', onStreamEnd)])"
      unfolding s1 by (rule accept_path(8) [OF el m ac assms(1)])
    show ?thesis using h z by auto
  next
    case False
    have st: "stream s1 = None"
      using engine_stream_None [OF assms(2), of E opts req] False e by simp
    have "handlers (res s1) = handlers (res s) @ map (\<lambda>p. (fst p, Listener (snd p))) xs"
    proof (cases "filter_fn E opts req (res s) \<and> shouldTransform req (res s)")
      case f: False
      then have "onResponseHeaders E opts req s = nocompress s"
        by (auto simp: engine_filtered)
      then show ?thesis
        using e by (simp add: nocompress_Some [OF assms(1)] register_all_res)
    next
      case t: True
      let ?sv = "s\<lparr>res := vary (res s) ''Accept-Encoding''\<rparr>"
      have lv: "listeners ?sv = Some xs" using assms(1) by simp
      have "below_threshold E opts s \<or> already_encoded (res s) \<or> rmethod req = ''HEAD'' \<or>
             \<not> acceptable (negotiate E req)"
        using t False by (auto simp: eligible_def)
      then have "onResponseHeaders E opts req s = nocompress ?sv"
        using t by (simp add: engine_declined)
      then show ?thesis
        using e by (simp add: nocompress_Some [OF lv] register_all_res vary_fields)
    qed
    then show ?thesis using st by simp
  qed
  show "stream (snd (implicitHeader E opts req s)) = None \<longrightarrow>
           handlers (res (snd (implicitHeader E opts req s))) =
             handlers (res s) @ map (\<lambda>p. (fst p, Listener (snd p))) xs"
    using k by (simp add: i)
  show "stream (snd (implicitHeader E opts req s)) \<noteq> None \<longrightarrow>
           map_option zhandlers (stream (snd (implicitHeader E opts req s))) =
             Some (map (\<lambda>p. (fst p, Listener (snd p))) xs @
                   [(JStr ''data'', onStreamData), (JStr ''end'', onStreamEnd)]) \<and>
           handlers (res (snd (implicitHeader E opts req s))) =
             handlers (res s) @ [(JStr ''drain'', onResponseDrain)]"
    using k by (simp add: i)
qed

section \<open>The claims\<close>

text \<open>
  Claim C1, as the code has it. When the body size cannot be resolved (no
  \<^verbatim>\<open>Content-Length\<close> header and no estimated length) both comparisons of the size check are
  false, so that check does not decline. The response is passed through exactly when one
  of the other checks declines (filter, no-transform, already encoded, \<^verbatim>\<open>HEAD\<close>, failed
  negotiation); when all of them pass, a compression stream is installed.
\<close>

theorem unknown_size_decided_by_other_checks:
  assumes "getHeader (res s) ''Content-Length'' = None" "length_est s = None"
    and "stream s = None"
  shows "(stream (snd (onResponseHeaders E opts req s)) = None) =
         (\<not> (filter_fn E opts req (res s) \<and> shouldTransform req (res s) \<and>
             \<not> already_encoded (res s) \<and> rmethod req \<noteq> ''HEAD'' \<and>
             acceptable (negotiate E req)))"
  using engine_stream_None [OF assms(3), of E opts req]
        unknown_size_not_below [OF assms(1,2), of E opts]
  by (auto simp: eligible_def)

lemma streaming_example:
  "getHeader (res (compression html_response)) ''Content-Length'' = None"
  "length_est (compression html_response) = None"
  "stream (compression html_response) = None"
  "filter_fn node_env default_options (get_request [(''gzip'', 1000)]) (res (compression html_response))"
  "shouldTransform (get_request [(''gzip'', 1000)]) (res (compression html_response))"
  "\<not> already_encoded (res (compression html_response))"
  "rmethod (get_request [(''gzip'', 1000)]) \<noteq> ''HEAD''"
  "acceptable (negotiate node_env (get_request [(''gzip'', 1000)]))"
  by code_simp+

theorem unknown_size_decided_by_other_checks_witness:
  "stream (snd (onResponseHeaders node_env default_options (get_request [(''gzip'', 1000)])
      (compression html_response))) \<noteq> None"
  using unknown_size_decided_by_other_checks [OF streaming_example(1,2,3), of node_env
          default_options "get_request [(''gzip'', 1000)]"]
        streaming_example(4,5,6,7,8)
  by blast

theorem unknown_size_is_compressed:
  "getHeader (res (compression html_response)) ''Content-Length'' = None \<and>
   length_est (compression html_response) = None \<and>
   map_option zmethod (stream (run node_env default_options (get_request [(''gzip'', 1000)])
      (compression html_response) [Write (JStr ''hello'') Undefined Undefined])) = Some Gzip \<and>
   map_option zinput (stream (run node_env default_options (get_request [(''gzip'', 1000)])
      (compression html_response) [Write (JStr ''hello'') Undefined Undefined])) =
     Some [([104, 101, 108, 108, 111], Undefined)] \<and>
   getHeader (res (run node_env default_options (get_request [(''gzip'', 1000)])
      (compression html_response) [Write (JStr ''hello'') Undefined Undefined]))
      ''Content-Encoding'' = Some (HStr ''gzip'') \<and>
   wire (res (run node_env default_options (get_request [(''gzip'', 1000)])
      (compression html_response) [Write (JStr ''hello'') Undefined Undefined])) = []"
  by code_simp

text \<open>
  Claim C2. A response whose resolved body size (the \<^verbatim>\<open>Content-Length\<close> header, or
  otherwise the length estimated from the chunk of a first and final \<^verbatim>\<open>end\<close>) is below the
  threshold is declined. For a new session on a response that is not yet sent, any
  \<^verbatim>\<open>write\<close> calls with string or \<^verbatim>\<open>Uint8Array\<close> chunks followed by \<^verbatim>\<open>end\<close>: no stream is
  installed, \<^verbatim>\<open>Content-Encoding\<close> is as the application left it, and the transport receives
  exactly the chunks handed over, in order and unmodified.
\<close>

theorem below_threshold_passes_through:
  assumes "\<not> header_sent r" "\<not> finished r" "\<not> destroyed r"
    and "\<forall>w \<in> set ws. valid_chunk (fst w)"
    and "\<not> truthy (fst (end_args c e cb)) \<or> valid_chunk (fst (end_args c e cb))"
    and "js_less (resolved_size E (at_decision E r ws c e cb)) (Fin (threshold E opts))"
  shows "stream (run E opts req (compression r) (body_calls ws c e cb)) = None \<and>
         getHeader (res (run E opts req (compression r) (body_calls ws c e cb)))
           ''Content-Encoding'' = getHeader r ''Content-Encoding'' \<and>
         wire (res (run E opts req (compression r) (body_calls ws c e cb))) =
           wire r @ written ws @ final_chunk c e cb"
proof -
  have "below_threshold E opts (at_decision E r ws c e cb)"
    using assms(6) by (rule resolved_below)
  then have d: "\<not> (eligible E opts req (at_decision E r ws c e cb) \<and>
                   acceptable (negotiate E req))"
    by (simp add: eligible_def)
  show ?thesis
    using declined_run [OF assms(1,2,3,4,5) d] by (simp add: lowercase_names)
qed

lemma small_example:
  "\<not> header_sent small_response"
  "\<not> finished small_response"
  "\<not> destroyed small_response"
  "\<forall>w \<in> set [(JStr ''he'', Undefined, Undefined)]. valid_chunk (fst w)"
  "\<not> truthy (fst (end_args (JStr ''llo'') Undefined Undefined)) \<or>
   valid_chunk (fst (end_args (JStr ''llo'') Undefined Undefined))"
  "js_less (resolved_size node_env (at_decision node_env small_response
      [(JStr ''he'', Undefined, Undefined)] (JStr ''llo'') Undefined Undefined))
     (Fin (threshold node_env default_options))"
  "wire small_response @ written [(JStr ''he'', Undefined, Undefined)] @
     final_chunk (JStr ''llo'') Undefined Undefined =
   [(JStr ''he'', Undefined), (JStr ''llo'', Undefined)]"
  by code_simp+

lemma estimate_example:
  "\<not> header_sent html_response"
  "\<not> finished html_response"
  "\<not> destroyed html_response"
  "\<forall>w \<in> set ([] :: (jsval \<times> jsval \<times> jsval) list). valid_chunk (fst w)"
  "\<not> truthy (fst (end_args (JStr ''hello'') Undefined Undefined)) \<or>
   valid_chunk (fst (end_args (JStr ''hello'') Undefined Undefined))"
  "js_less (resolved_size node_env (at_decision node_env html_response
      [] (JStr ''hello'') Undefined Undefined))
     (Fin (threshold node_env default_options))"
  "wire html_response @ written [] @ final_chunk (JStr ''hello'') Undefined Undefined =
   [(JStr ''hello'', Undefined)]"
  by code_simp+

theorem below_threshold_passes_through_witness:
  "stream (run node_env default_options (get_request [(''gzip'', 1000)])
      (compression small_response)
      (body_calls [(JStr ''he'', Undefined, Undefined)] (JStr ''llo'') Undefined Undefined)) = None \<and>
   wire (res (run node_env default_options (get_request [(''gzip'', 1000)])
      (compression small_response)
      (body_calls [(JStr ''he'', Undefined, Undefined)] (JStr ''llo'') Undefined Undefined))) =
     [(JStr ''he'', Undefined), (JStr ''llo'', Undefined)] \<and>
   stream (run node_env default_options (get_request [(''gzip'', 1000)])
      (compression html_response) (body_calls [] (JStr ''hello'') Undefined Undefined)) = None \<and>
   wire (res (run node_env default_options (get_request [(''gzip'', 1000)])
      (compression html_response) (body_calls [] (JStr ''hello'') Undefined Undefined))) =
     [(JStr ''hello'', Undefined)]"
proof -
  note a = below_threshold_passes_through [OF small_example(1,2,3,4,5,6),
             of "get_request [(''gzip'', 1000)]"]
  note b = below_threshold_passes_through [OF estimate_example(1,2,3,4,5,6),
             of "get_request [(''gzip'', 1000)]"]
  show ?thesis
    using a b by (simp only: small_example(7) estimate_example(7))
qed

text \<open>
  Claim C3. A response whose \<^verbatim>\<open>Cache-Control\<close> header holds the no-transform directive is
  declined before \<^verbatim>\<open>vary\<close> is called. For a new session on a response that is not yet
  sent, any \<^verbatim>\<open>write\<close> calls with string or \<^verbatim>\<open>Uint8Array\<close> chunks followed by \<^verbatim>\<open>end\<close>: no
  stream is installed, no header is changed (so no \<^verbatim>\<open>Vary\<close> is added), and the transport
  receives exactly the chunks handed over.
\<close>

theorem no_transform_passes_through:
  assumes "\<not> header_sent r" "\<not> finished r" "\<not> destroyed r"
    and "\<forall>w \<in> set ws. valid_chunk (fst w)"
    and "\<not> truthy (fst (end_args c e cb)) \<or> valid_chunk (fst (end_args c e cb))"
    and "htruthy (getHeader r ''Cache-Control'')"
    and "cacheControlNoTransformRegExp_test (hstring (the (getHeader r ''Cache-Control'')))"
  shows "stream (run E opts req (compression r) (body_calls ws c e cb)) = None \<and>
         headers (res (run E opts req (compression r) (body_calls ws c e cb))) = headers r \<and>
         getHeader (res (run E opts req (compression r) (body_calls ws c e cb))) ''Vary'' =
           getHeader r ''Vary'' \<and>
         wire (res (run E opts req (compression r) (body_calls ws c e cb))) =
           wire r @ written ws @ final_chunk c e cb"
proof -
  have t: "\<not> shouldTransform req r"
    using assms(6,7) by (simp add: shouldTransform_def Let_def)
  have "res (at_decision E r ws c e cb) = r"
    using estimate_valid(2) [OF assms(5), of E "compression r"]
    by (simp add: at_decision_def compression_def)
  then have d: "\<not> (eligible E opts req (at_decision E r ws c e cb) \<and>
                   acceptable (negotiate E req))"
    using t by (simp add: eligible_def)
  show ?thesis
    using declined_run [OF assms(1,2,3,4,5) d] t by (simp add: getHeader_def)
qed

lemma no_transform_example:
  "\<not> header_sent no_transform_response"
  "\<not> finished no_transform_response"
  "\<not> destroyed no_transform_response"
  "\<forall>w \<in> set [(JStr ''he'', Undefined, Undefined)]. valid_chunk (fst w)"
  "\<not> truthy (fst (end_args (JStr ''llo'') Undefined Undefined)) \<or>
   valid_chunk (fst (end_args (JStr ''llo'') Undefined Undefined))"
  "htruthy (getHeader no_transform_response ''Cache-Control'')"
  "cacheControlNoTransformRegExp_test (hstring (the (getHeader no_transform_response ''Cache-Control'')))"
  "wire no_transform_response @ written [(JStr ''he'', Undefined, Undefined)] @
     final_chunk (JStr ''llo'') Undefined Undefined =
   [(JStr ''he'', Undefined), (JStr ''llo'', Undefined)]"
  "getHeader no_transform_response ''Vary'' = None"
  by code_simp+

theorem no_transform_passes_through_witness:
  "stream (run node_env default_options (get_request [(''gzip'', 1000)])
      (compression no_transform_response)
      (body_calls [(JStr ''he'', Undefined, Undefined)] (JStr ''llo'') Undefined Undefined)) = None \<and>
   getHeader (res (run node_env default_options (get_request [(''gzip'', 1000)])
      (compression no_transform_response)
      (body_calls [(JStr ''he'', Undefined, Undefined)] (JStr ''llo'') Undefined Undefined)))
      ''Vary'' = None \<and>
   wire (res (run node_env default_options (get_request [(''gzip'', 1000)])
      (compression no_transform_response)
      (body_calls [(JStr ''he'', Undefined, Undefined)] (JStr ''llo'') Undefined Undefined))) =
     [(JStr ''he'', Undefined), (JStr ''llo'', Undefined)]"
proof -
  note a = no_transform_passes_through [OF no_transform_example(1,2,3,4,5,6,7),
             of node_env default_options "get_request [(''gzip'', 1000)]"]
  show ?thesis
    using a by (simp only: no_transform_example(8,9))
qed

text \<open>
  Claim C4. When the filter passes and the response may be transformed, the headers
  listener leaves the \<^verbatim>\<open>Vary\<close> header as \<^verbatim>\<open>vary(res, 'Accept-Encoding')\<close> made it, whether a
  later check (size, already encoded, \<^verbatim>\<open>HEAD\<close>, negotiation) declines or a stream is
  installed: the header lists \<^verbatim>\<open>Accept-Encoding\<close>, or is \<^verbatim>\<open>*\<close>, which covers every field.
\<close>

theorem vary_set_before_later_checks:
  assumes "filter_fn E opts req (res s)" "shouldTransform req (res s)"
  shows "getHeader (res (snd (onResponseHeaders E opts req s))) ''Vary'' =
           getHeader (vary (res s) ''Accept-Encoding'') ''Vary'' \<and>
         lists_field (getHeader (res (snd (onResponseHeaders E opts req s))) ''Vary'')
           ''Accept-Encoding''"
  using engine_vary [OF assms] vary_lists_accept_encoding by simp

lemma head_example:
  "filter_fn node_env default_options (head_request [(''gzip'', 1000)]) (res (compression html_5000))"
  "shouldTransform (head_request [(''gzip'', 1000)]) (res (compression html_5000))"
  "getHeader (vary (res (compression html_5000)) ''Accept-Encoding'') ''Vary'' =
     Some (HStr ''Accept-Encoding'')"
  "stream (snd (onResponseHeaders node_env default_options (head_request [(''gzip'', 1000)])
      (compression html_5000))) = None"
  by code_simp+

theorem vary_set_before_later_checks_witness:
  "getHeader (res (snd (onResponseHeaders node_env default_options (head_request [(''gzip'', 1000)])
      (compression html_5000)))) ''Vary'' = Some (HStr ''Accept-Encoding'') \<and>
   stream (snd (onResponseHeaders node_env default_options (head_request [(''gzip'', 1000)])
      (compression html_5000))) = None"
  using vary_set_before_later_checks [OF head_example(1,2)] head_example(3,4) by simp

text \<open>
  Claim C5, as the code has it. For an eligible response above the threshold whose
  request accepts gzip, the method comes from the negotiation over br, gzip, deflate,
  identity, except that an answer of deflate is replaced by the answer of a second
  negotiation over gzip and identity. So the stream is never a deflate stream; it is a
  brotli stream when the first answer is br, and a gzip stream when the first answer is
  gzip or when it is deflate and the second answer is gzip. No stream is installed when
  the first answer is deflate and the second is identity or nothing, and when the first
  answer is identity or nothing. (The negotiation answers with a member of the list it is
  given, or with nothing.)
\<close>

theorem negotiation_never_deflate:
  assumes "eligible E opts req s" "listeners s = Some xs" "stream s = None"
    and "accepts_encoding E req [''gzip''] = Some ''gzip''"
    and "accepts_encoding E req [''br'', ''gzip'', ''deflate'', ''identity''] \<in>
           set [None, Some ''br'', Some ''gzip'', Some ''deflate'', Some ''identity'']"
    and "accepts_encoding E req [''gzip'', ''identity''] \<in>
           set [None, Some ''gzip'', Some ''identity'']"
  shows "map_option zmethod (stream (snd (onResponseHeaders E opts req s))) \<noteq> Some Deflate \<and>
         (accepts_encoding E req [''br'', ''gzip'', ''deflate'', ''identity''] = Some ''br'' \<longrightarrow>
            map_option zmethod (stream (snd (onResponseHeaders E opts req s))) = Some Brotli) \<and>
         (accepts_encoding E req [''br'', ''gzip'', ''deflate'', ''identity''] = Some ''gzip'' \<longrightarrow>
            map_option zmethod (stream (snd (onResponseHeaders E opts req s))) = Some Gzip) \<and>
         (accepts_encoding E req [''br'', ''gzip'', ''deflate'', ''identity''] = Some ''deflate'' \<and>
          accepts_encoding E req [''gzip'', ''identity''] = Some ''gzip'' \<longrightarrow>
            map_option zmethod (stream (snd (onResponseHeaders E opts req s))) = Some Gzip) \<and>
         (accepts_encoding E req [''br'', ''gzip'', ''deflate'', ''identity''] = Some ''deflate'' \<and>
          accepts_encoding E req [''gzip'', ''identity''] = Some ''identity'' \<longrightarrow>
            stream (snd (onResponseHeaders E opts req s)) = None) \<and>
         (accepts_encoding E req [''br'', ''gzip'', ''deflate'', ''identity''] = Some ''deflate'' \<and>
          accepts_encoding E req [''gzip'', ''identity''] = None \<longrightarrow>
            stream (snd (onResponseHeaders E opts req s)) = None) \<and>
         (accepts_encoding E req [''br'', ''gzip'', ''deflate'', ''identity''] = Some ''identity'' \<longrightarrow>
            stream (snd (onResponseHeaders E opts req s)) = None) \<and>
         (accepts_encoding E req [''br'', ''gzip'', ''deflate'', ''identity''] = None \<longrightarrow>
            stream (snd (onResponseHeaders E opts req s)) = None)"
proof -
  note m = engine_method [OF assms(1,2,3)]
  have n: "stream (snd (onResponseHeaders E opts req s)) = None \<longleftrightarrow>
           map_option zmethod (stream (snd (onResponseHeaders E opts req s))) = None"
    by simp
  show ?thesis
    unfolding n using assms(4,5,6)
    by (auto simp: m negotiate_def Let_def)
qed

lemma gzip_deflate_example:
  "eligible node_env default_options (get_request [(''gzip'', 1000), (''deflate'', 1000)])
     (compression html_5000)"
  "listeners (compression html_5000) = Some []"
  "stream (compression html_5000) = None"
  "accepts_encoding node_env (get_request [(''gzip'', 1000), (''deflate'', 1000)]) [''gzip''] =
     Some ''gzip''"
  "accepts_encoding node_env (get_request [(''gzip'', 1000), (''deflate'', 1000)])
     [''br'', ''gzip'', ''deflate'', ''identity''] = Some ''gzip''"
  "accepts_encoding node_env (get_request [(''gzip'', 1000), (''deflate'', 1000)])
     [''gzip'', ''identity''] = Some ''gzip''"
  by code_simp+

lemma deflate_gzip_example:
  "eligible node_env default_options (get_request [(''deflate'', 1000), (''gzip'', 1000)])
     (compression html_5000)"
  "listeners (compression html_5000) = Some []"
  "stream (compression html_5000) = None"
  "accepts_encoding node_env (get_request [(''deflate'', 1000), (''gzip'', 1000)]) [''gzip''] =
     Some ''gzip''"
  "accepts_encoding node_env (get_request [(''deflate'', 1000), (''gzip'', 1000)])
     [''br'', ''gzip'', ''deflate'', ''identity''] = Some ''deflate''"
  "accepts_encoding node_env (get_request [(''deflate'', 1000), (''gzip'', 1000)])
     [''gzip'', ''identity''] = Some ''gzip''"
  by code_simp+

lemma deflate_identity_example:
  "eligible node_env default_options
     (get_request [(''deflate'', 1000), (''gzip'', 100), (''identity'', 500)])
     (compression html_5000)"
  "listeners (compression html_5000) = Some []"
  "stream (compression html_5000) = None"
  "accepts_encoding node_env
     (get_request [(''deflate'', 1000), (''gzip'', 100), (''identity'', 500)]) [''gzip''] =
     Some ''gzip''"
  "accepts_encoding node_env
     (get_request [(''deflate'', 1000), (''gzip'', 100), (''identity'', 500)])
     [''br'', ''gzip'', ''deflate'', ''identity''] = Some ''deflate''"
  "accepts_encoding node_env
     (get_request [(''deflate'', 1000), (''gzip'', 100), (''identity'', 500)])
     [''gzip'', ''identity''] = Some ''identity''"
  by code_simp+

theorem negotiation_never_deflate_witness:
  "map_option zmethod (stream (snd (onResponseHeaders node_env default_options
      (get_request [(''gzip'', 1000), (''deflate'', 1000)]) (compression html_5000)))) =
   Some Gzip \<and>
   map_option zmethod (stream (snd (onResponseHeaders node_env default_options
      (get_request [(''deflate'', 1000), (''gzip'', 1000)]) (compression html_5000)))) =
   Some Gzip \<and>
   stream (snd (onResponseHeaders node_env default_options
      (get_request [(''deflate'', 1000), (''gzip'', 100), (''identity'', 500)])
      (compression html_5000))) = None"
proof -
  note g = gzip_deflate_example
  note e = deflate_gzip_example
  note f = deflate_identity_example
  have a0: "accepts_encoding node_env (get_request [(''gzip'', 1000), (''deflate'', 1000)])
      [''br'', ''gzip'', ''deflate'', ''identity''] \<in>
        set [None, Some ''br'', Some ''gzip'', Some ''deflate'', Some ''identity'']"
    by (simp add: g(5))
  have b0: "accepts_encoding node_env (get_request [(''gzip'', 1000), (''deflate'', 1000)])
      [''gzip'', ''identity''] \<in> set [None, Some ''gzip'', Some ''identity'']"
    by (simp add: g(6))
  have a: "accepts_encoding node_env (get_request [(''deflate'', 1000), (''gzip'', 1000)])
      [''br'', ''gzip'', ''deflate'', ''identity''] \<in>
        set [None, Some ''br'', Some ''gzip'', Some ''deflate'', Some ''identity'']"
    by (simp add: e(5))
  have b: "accepts_encoding node_env (get_request [(''deflate'', 1000), (''gzip'', 1000)])
      [''gzip'', ''identity''] \<in> set [None, Some ''gzip'', Some ''identity'']"
    by (simp add: e(6))
  have c: "accepts_encoding node_env
      (get_request [(''deflate'', 1000), (''gzip'', 100), (''identity'', 500)])
      [''br'', ''gzip'', ''deflate'', ''identity''] \<in>
        set [None, Some ''br'', Some ''gzip'', Some ''deflate'', Some ''identity'']"
    by (simp add: f(5))
  have d: "accepts_encoding node_env
      (get_request [(''deflate'', 1000), (''gzip'', 100), (''identity'', 500)])
      [''gzip'', ''identity''] \<in> set [None, Some ''gzip'', Some ''identity'']"
    by (simp add: f(6))
  have w: "map_option zmethod (stream (snd (onResponseHeaders node_env default_options
      (get_request [(''gzip'', 1000), (''deflate'', 1000)]) (compression html_5000)))) =
      Some Gzip"
    using negotiation_never_deflate [OF g(1) g(2) g(3) g(4) a0 b0] g(5) by blast
  have x: "map_option zmethod (stream (snd (onResponseHeaders node_env default_options
      (get_request [(''deflate'', 1000), (''gzip'', 1000)]) (compression html_5000)))) =
      Some Gzip"
    using negotiation_never_deflate [OF e(1) e(2) e(3) e(4) a b] e(5) e(6) by blast
  have y: "stream (snd (onResponseHeaders node_env default_options
      (get_request [(''deflate'', 1000), (''gzip'', 100), (''identity'', 500)])
      (compression html_5000))) = None"
    using negotiation_never_deflate [OF f(1) f(2) f(3) f(4) c d] f(5) f(6) by blast
  show ?thesis using w x y by (intro conjI)
qed

lemma br_gzip_deflate_example:
  "eligible node_env default_options
     (get_request [(''br'', 1000), (''gzip'', 1000), (''deflate'', 1000)]) (compression html_5000)"
  "negotiate node_env (get_request [(''br'', 1000), (''gzip'', 1000), (''deflate'', 1000)]) =
     Some ''br''"
  "accepts_encoding node_env (get_request [(''br'', 1000), (''gzip'', 1000), (''deflate'', 1000)])
     [''gzip''] = Some ''gzip''"
  "accepts_encoding node_env (get_request [(''br'', 1000), (''gzip'', 1000), (''deflate'', 1000)])
     [''deflate''] = Some ''deflate''"
  by code_simp+

theorem gzip_and_deflate_accepted_brotli_chosen:
  "accepts_encoding node_env (get_request [(''br'', 1000), (''gzip'', 1000), (''deflate'', 1000)])
     [''gzip''] = Some ''gzip'' \<and>
   accepts_encoding node_env (get_request [(''br'', 1000), (''gzip'', 1000), (''deflate'', 1000)])
     [''deflate''] = Some ''deflate'' \<and>
   eligible node_env default_options
     (get_request [(''br'', 1000), (''gzip'', 1000), (''deflate'', 1000)]) (compression html_5000) \<and>
   map_option zmethod (stream (snd (onResponseHeaders node_env default_options
      (get_request [(''br'', 1000), (''gzip'', 1000), (''deflate'', 1000)])
      (compression html_5000)))) = Some Brotli \<and>
   map_option zmethod (stream (snd (onResponseHeaders node_env default_options
      (get_request [(''br'', 1000), (''gzip'', 1000), (''deflate'', 1000)])
      (compression html_5000)))) \<noteq> Some Gzip"
proof -
  note e = br_gzip_deflate_example
  have a: "acceptable (Some ''br'')" by (simp add: acceptable_def)
  have l: "listeners (compression html_5000) = Some []" by (simp add: compression_def)
  show ?thesis
    using accept_path(2) [OF e(1) e(2) a l] e by auto
qed

text \<open>
  Claim C6, as the code has it. On the accept path the stream is built for the negotiated
  method, \<^verbatim>\<open>Content-Encoding\<close> is set to the method's name and \<^verbatim>\<open>Content-Length\<close> is removed.
  The configured options are given to the gzip and the deflate constructor only; the
  brotli constructor is called without any argument.
\<close>

theorem accept_path_stream_and_headers:
  assumes "eligible E opts req s" "negotiate E req = Some m" "acceptable (Some m)"
    and "listeners s = Some xs"
  shows "map_option zmethod (stream (snd (onResponseHeaders E opts req s))) =
           Some (if m = ''br'' then Brotli else if m = ''gzip'' then Gzip else Deflate) \<and>
         map_option zoptions (stream (snd (onResponseHeaders E opts req s))) =
           Some (if m = ''br'' then None else Some opts) \<and>
         getHeader (res (snd (onResponseHeaders E opts req s))) ''Content-Encoding'' =
           Some (HStr m) \<and>
         getHeader (res (snd (onResponseHeaders E opts req s))) ''Content-Length'' = None"
  using accept_path [OF assms] by simp

lemma gzip_example:
  "eligible node_env level9 (get_request [(''gzip'', 1000)]) (compression html_5000)"
  "negotiate node_env (get_request [(''gzip'', 1000)]) = Some ''gzip''"
  by code_simp+

lemma br_example:
  "eligible node_env level9 (get_request [(''br'', 1000)]) (compression html_5000)"
  "negotiate node_env (get_request [(''br'', 1000)]) = Some ''br''"
  by code_simp+

theorem accept_path_stream_and_headers_witness:
  "map_option zmethod (stream (snd (onResponseHeaders node_env level9
      (get_request [(''gzip'', 1000)]) (compression html_5000)))) = Some Gzip \<and>
   map_option zoptions (stream (snd (onResponseHeaders node_env level9
      (get_request [(''gzip'', 1000)]) (compression html_5000)))) = Some (Some level9) \<and>
   getHeader (res (snd (onResponseHeaders node_env level9
      (get_request [(''gzip'', 1000)]) (compression html_5000)))) ''Content-Encoding'' =
     Some (HStr ''gzip'') \<and>
   getHeader (res (snd (onResponseHeaders node_env level9
      (get_request [(''gzip'', 1000)]) (compression html_5000)))) ''Content-Length'' = None"
proof -
  have a: "acceptable (Some ''gzip'')" by (simp add: acceptable_def)
  have l: "listeners (compression html_5000) = Some []" by (simp add: compression_def)
  show ?thesis
    using accept_path_stream_and_headers [OF gzip_example a l] by simp
qed

theorem brotli_without_options:
  "acceptable (negotiate node_env (get_request [(''br'', 1000)])) \<and>
   eligible node_env level9 (get_request [(''br'', 1000)]) (compression html_5000) \<and>
   map_option zmethod (stream (snd (onResponseHeaders node_env level9
      (get_request [(''br'', 1000)]) (compression html_5000)))) = Some Brotli \<and>
   map_option zoptions (stream (snd (onResponseHeaders node_env level9
      (get_request [(''br'', 1000)]) (compression html_5000)))) \<noteq> Some (Some level9)"
proof -
  have a: "acceptable (Some ''br'')" by (simp add: acceptable_def)
  have l: "listeners (compression html_5000) = Some []" by (simp add: compression_def)
  show ?thesis
    using accept_path(2,3) [OF br_example a l] br_example a by auto
qed

text \<open>
  Claim C7 at a failing input. A response with \<^verbatim>\<open>Content-Length: 5\<close> is below the threshold
  and passed through. After \<^verbatim>\<open>res.end('hello')\<close> the response is finished and the session's
  \<^verbatim>\<open>ended\<close> is still false, so a second \<^verbatim>\<open>end\<close> sets \<^verbatim>\<open>finished\<close> back to false before it
  delegates: the original \<^verbatim>\<open>end\<close> reports no error and accepts the second chunk, where two
  calls of the original \<^verbatim>\<open>end\<close> report write-after-end (with a chunk) and already-finished
  (without one).
\<close>

theorem second_end_in_passthrough:
  "stream ended_once = None \<and> finished (res ended_once) \<and> \<not> ended ended_once \<and>
   fst (end' node_env default_options (get_request [(''gzip'', 1000)]) ended_once
          (JStr ''again'') Undefined Undefined) = None \<and>
   wire (res (snd (end' node_env default_options (get_request [(''gzip'', 1000)]) ended_once
          (JStr ''again'') Undefined Undefined))) =
     [(JStr ''hello'', Undefined), (JStr ''again'', Undefined)] \<and>
   fst (end' node_env default_options (get_request [(''gzip'', 1000)]) ended_once
          Undefined Undefined Undefined) = None \<and>
   finished (res native_ended_once) \<and>
   fst (orig_end node_env default_options (get_request [(''gzip'', 1000)]) native_ended_once
          (JStr ''again'') Undefined Noop) = Some ERR_STREAM_WRITE_AFTER_END \<and>
   fst (orig_end node_env default_options (get_request [(''gzip'', 1000)]) native_ended_once
          Undefined Undefined Noop) = Some ERR_STREAM_ALREADY_FINISHED"
  by code_simp

text \<open>
  Claim C8. When the chunk given to \<^verbatim>\<open>write\<close> is \<^verbatim>\<open>null\<close>, or is neither a string nor a
  \<^verbatim>\<open>Uint8Array\<close>, the proxy does what the original \<^verbatim>\<open>write\<close> does with the same three
  arguments on the same response, whatever the state of the session: the error is the
  transport's null-value or argument-type error, and nothing changes but the record of
  that one call (no header is sent, \<^verbatim>\<open>ended\<close>, \<^verbatim>\<open>length\<close>, \<^verbatim>\<open>listeners\<close> and \<^verbatim>\<open>stream\<close> are as
  before).
\<close>

theorem write_invalid_chunk_forwarded:
  assumes "chunk = Null \<or> \<not> (is_string chunk \<or> isUint8Array chunk)"
  shows "write' E opts req s chunk encoding callback =
           orig_write E opts req s chunk encoding callback \<and>
         write' E opts req s chunk encoding callback =
           (Some (if chunk = Null then ERR_STREAM_NULL_VALUES else ERR_INVALID_ARG_TYPE),
            log_call (CallWrite chunk encoding callback) s)"
proof -
  have c: "write_check (finished (res s)) (destroyed (res s)) chunk =
        Some (if chunk = Null then ERR_STREAM_NULL_VALUES else ERR_INVALID_ARG_TYPE)"
    using assms unfolding write_check_def by (cases "chunk = Null") simp_all
  have o: "orig_write E opts req s chunk encoding callback =
        (Some (if chunk = Null then ERR_STREAM_NULL_VALUES else ERR_INVALID_ARG_TYPE),
         log_call (CallWrite chunk encoding callback) s)"
    unfolding orig_write_def Let_def by (simp add: log_call_fields c)
  show ?thesis using write_invalid_eq [OF assms] o by simp
qed

theorem write_invalid_chunk_forwarded_witness:
  "write' node_env default_options (get_request [(''gzip'', 1000)])
     ((compression (fresh_response []))\<lparr>ended := True\<rparr>) Null (JStr ''utf8'') (JFun 1) =
   (Some ERR_STREAM_NULL_VALUES,
    log_call (CallWrite Null (JStr ''utf8'') (JFun 1))
      ((compression (fresh_response []))\<lparr>ended := True\<rparr>)) \<and>
   fst (write' node_env default_options (get_request [(''gzip'', 1000)])
     (compression (fresh_response [])) (JNum (Fin 5)) Undefined Undefined) =
   Some ERR_INVALID_ARG_TYPE"
proof -
  have h1: "Null = Null \<or> \<not> (is_string Null \<or> isUint8Array Null)" by simp
  have h2: "JNum (Fin 5) = Null \<or> \<not> (is_string (JNum (Fin 5)) \<or> isUint8Array (JNum (Fin 5)))"
    by simp
  note a = write_invalid_chunk_forwarded [OF h1, THEN conjunct2]
  note b = write_invalid_chunk_forwarded [OF h2, THEN conjunct2]
  show ?thesis by (simp add: a b)
qed

text \<open>
  Claim C9, as the code has it. When the headers listener has run on a session that was
  buffering listeners \<open>xs\<close>: on the decline path \<^verbatim>\<open>listeners\<close> is \<^verbatim>\<open>null\<close> and the buffered
  listeners have been registered, in order, on the response; on the accept path a stream
  is installed whose handlers are the buffered listeners, in order, followed by the
  \<^verbatim>\<open>data\<close> and \<^verbatim>\<open>end\<close> handlers of the middleware, the response has gained only the \<^verbatim>\<open>drain\<close>
  handler of the middleware, and \<^verbatim>\<open>listeners\<close> still holds \<open>xs\<close>. On both paths, after any
  further calls, a registration adds nothing to the buffer, and a \<^verbatim>\<open>drain\<close> listener is
  registered on the stream when there is one and on the response otherwise.
\<close>

theorem listeners_after_decision:
  assumes "listeners s = Some xs" "stream s = None"
  shows "(stream (snd (implicitHeader E opts req s)) = None \<longrightarrow>
            listeners (snd (implicitHeader E opts req s)) = None \<and>
            handlers (res (snd (implicitHeader E opts req s))) =
              handlers (res s) @ map (\<lambda>p. (fst p, Listener (snd p))) xs) \<and>
         (stream (snd (implicitHeader E opts req s)) \<noteq> None \<longrightarrow>
            listeners (snd (implicitHeader E opts req s)) = Some xs \<and>
            map_option zhandlers (stream (snd (implicitHeader E opts req s))) =
              Some (map (\<lambda>p. (fst p, Listener (snd p))) xs @
                    [(JStr ''data'', onStreamData), (JStr ''end'', onStreamEnd)]) \<and>
            handlers (res (snd (implicitHeader E opts req s))) =
              handlers (res s) @ [(JStr ''drain'', onResponseDrain)]) \<and>
         (\<forall>cs t l.
            listeners (on (run E opts req (snd (implicitHeader E opts req s)) cs) t l) =
              listeners (run E opts req (snd (implicitHeader E opts req s)) cs) \<and>
            on (run E opts req (snd (implicitHeader E opts req s)) cs) (JStr ''drain'') l =
              (case stream (run E opts req (snd (implicitHeader E opts req s)) cs) of
                 None \<Rightarrow>
                   (run E opts req (snd (implicitHeader E opts req s)) cs)
                     \<lparr>res := orig_on (res (run E opts req (snd (implicitHeader E opts req s)) cs))
                               (JStr ''drain'') (Listener l)\<rparr>
               | Some z \<Rightarrow>
                   (run E opts req (snd (implicitHeader E opts req s)) cs)
                     \<lparr>stream := Some (stream_on z (JStr ''drain'') (Listener l))\<rparr>))"
proof -
  let ?s1 = "snd (implicitHeader E opts req s)"
  note d = implicitHeader_decided [OF assms, of E opts req]
  note p = implicitHeader_replay [OF assms, of E opts req]
  have q: "(listeners ?s1 = None) = (stream ?s1 = None)" using d(3) d(4) by auto
  have r: "\<And>cs. (listeners (run E opts req ?s1 cs) = None) = (stream (run E opts req ?s1 cs) = None)"
    using run_decided [OF d(2) q, of E opts req] q by auto
  have a: "stream ?s1 = None \<longrightarrow> listeners ?s1 = None \<and>
             handlers (res ?s1) = handlers (res s) @ map (\<lambda>p. (fst p, Listener (snd p))) xs"
    using d(3) p(1) by blast
  have b: "stream ?s1 \<noteq> None \<longrightarrow> listeners ?s1 = Some xs \<and>
             map_option zhandlers (stream ?s1) =
               Some (map (\<lambda>p. (fst p, Listener (snd p))) xs @
                     [(JStr ''data'', onStreamData), (JStr ''end'', onStreamEnd)]) \<and>
             handlers (res ?s1) = handlers (res s) @ [(JStr ''drain'', onResponseDrain)]"
    using d(4) p(2) by blast
  show ?thesis
    using a b on_decided [OF r] by simp
qed

lemma drain_example:
  "listeners (on (compression html_5000) (JStr ''drain'') (JFun 1)) =
     Some [(JStr ''drain'', JFun 1)]"
  "stream (on (compression html_5000) (JStr ''drain'') (JFun 1)) = None"
  "map_option zmethod (stream (snd (implicitHeader node_env default_options
      (get_request [(''gzip'', 1000)])
      (on (compression html_5000) (JStr ''drain'') (JFun 1))))) = Some Gzip"
  "map_option zmethod (stream (snd (onResponseHeaders node_env default_options
      (get_request [(''gzip'', 1000)])
      (on (compression html_5000) (JStr ''drain'') (JFun 1))))) = Some Gzip"
  by code_simp+

lemma drain_declined_example:
  "listeners (on (compression small_response) (JStr ''drain'') (JFun 1)) =
     Some [(JStr ''drain'', JFun 1)]"
  "stream (on (compression small_response) (JStr ''drain'') (JFun 1)) = None"
  "stream (snd (implicitHeader node_env default_options (get_request [(''gzip'', 1000)])
      (on (compression small_response) (JStr ''drain'') (JFun 1)))) = None"
  "handlers (res (on (compression small_response) (JStr ''drain'') (JFun 1))) = []"
  by code_simp+

theorem listeners_after_decision_witness:
  "listeners (snd (implicitHeader node_env default_options (get_request [(''gzip'', 1000)])
      (on (compression html_5000) (JStr ''drain'') (JFun 1)))) =
     Some [(JStr ''drain'', JFun 1)] \<and>
   map_option zhandlers (stream (snd (implicitHeader node_env default_options
      (get_request [(''gzip'', 1000)])
      (on (compression html_5000) (JStr ''drain'') (JFun 1))))) =
     Some [(JStr ''drain'', Listener (JFun 1)), (JStr ''data'', onStreamData),
           (JStr ''end'', onStreamEnd)] \<and>
   listeners (snd (implicitHeader node_env default_options (get_request [(''gzip'', 1000)])
      (on (compression small_response) (JStr ''drain'') (JFun 1)))) = None \<and>
   handlers (res (snd (implicitHeader node_env default_options (get_request [(''gzip'', 1000)])
      (on (compression small_response) (JStr ''drain'') (JFun 1))))) =
     [(JStr ''drain'', Listener (JFun 1))] \<and>
   listeners (on (run node_env default_options (get_request [(''gzip'', 1000)])
      (snd (implicitHeader node_env default_options (get_request [(''gzip'', 1000)])
         (on (compression html_5000) (JStr ''drain'') (JFun 1))))
      [Write (JStr ''hello'') Undefined Undefined]) (JStr ''drain'') (JFun 2)) =
   listeners (run node_env default_options (get_request [(''gzip'', 1000)])
      (snd (implicitHeader node_env default_options (get_request [(''gzip'', 1000)])
         (on (compression html_5000) (JStr ''drain'') (JFun 1))))
      [Write (JStr ''hello'') Undefined Undefined])"
proof -
  let ?s = "on (compression html_5000) (JStr ''drain'') (JFun 1)"
  let ?d = "on (compression small_response) (JStr ''drain'') (JFun 1)"
  let ?q = "get_request [(''gzip'', 1000)]"
  have z: "stream (snd (implicitHeader node_env default_options ?q ?s)) \<noteq> None"
    using drain_example(3) by auto
  note t = listeners_after_decision [OF drain_example(1,2), of node_env default_options ?q]
  note u = listeners_after_decision [OF drain_declined_example(1,2),
             of node_env default_options ?q]
  have a: "listeners (snd (implicitHeader node_env default_options ?q ?s)) =
             Some [(JStr ''drain'', JFun 1)]"
    using t z by blast
  have h: "map_option zhandlers (stream (snd (implicitHeader node_env default_options ?q ?s))) =
             Some (map (\<lambda>p. (fst p, Listener (snd p))) [(JStr ''drain'', JFun 1)] @
                   [(JStr ''data'', onStreamData), (JStr ''end'', onStreamEnd)])"
    using t z by blast
  have h': "map_option zhandlers (stream (snd (implicitHeader node_env default_options ?q ?s))) =
             Some [(JStr ''drain'', Listener (JFun 1)), (JStr ''data'', onStreamData),
                   (JStr ''end'', onStreamEnd)]"
    unfolding h by simp
  have c: "listeners (snd (implicitHeader node_env default_options ?q ?d)) = None"
    using u drain_declined_example(3) by blast
  have e: "handlers (res (snd (implicitHeader node_env default_options ?q ?d))) =
             handlers (res ?d) @ map (\<lambda>p. (fst p, Listener (snd p))) [(JStr ''drain'', JFun 1)]"
    using u drain_declined_example(3) by blast
  have e': "handlers (res (snd (implicitHeader node_env default_options ?q ?d))) =
             [(JStr ''drain'', Listener (JFun 1))]"
    unfolding e drain_declined_example(4) by simp
  have b: "listeners (on (run node_env default_options ?q
               (snd (implicitHeader node_env default_options ?q ?s))
               [Write (JStr ''hello'') Undefined Undefined]) (JStr ''drain'') (JFun 2)) =
           listeners (run node_env default_options ?q
               (snd (implicitHeader node_env default_options ?q ?s))
               [Write (JStr ''hello'') Undefined Undefined])"
    using t by blast
  show ?thesis using a h' c e' b by (intro conjI)
qed

theorem accept_path_keeps_listeners:
  "listeners (on (compression html_5000) (JStr ''drain'') (JFun 1)) =
     Some [(JStr ''drain'', JFun 1)] \<and>
   map_option zmethod (stream (snd (onResponseHeaders node_env default_options
      (get_request [(''gzip'', 1000)])
      (on (compression html_5000) (JStr ''drain'') (JFun 1))))) = Some Gzip \<and>
   listeners (snd (onResponseHeaders node_env default_options (get_request [(''gzip'', 1000)])
      (on (compression html_5000) (JStr ''drain'') (JFun 1)))) \<noteq> None"
proof -
  have "listeners (snd (onResponseHeaders node_env default_options (get_request [(''gzip'', 1000)])
      (on (compression html_5000) (JStr ''drain'') (JFun 1)))) = Some [(JStr ''drain'', JFun 1)]"
    by code_simp
  then show ?thesis using drain_example(1,4) by simp
qed

text \<open>
  Claim C10. \<^verbatim>\<open>res.flush\<close> is defined on every response. After any sequence of calls on a
  new session: while the header is not sent (the decision is not taken) and whenever no
  stream is installed (pass-through), \<^verbatim>\<open>flush\<close> changes nothing and raises nothing; when a
  stream is installed, \<^verbatim>\<open>flush\<close> flushes that stream and changes nothing else.
\<close>

theorem flush_operation:
  "(\<not> header_sent (res (run E opts req (compression r) cs)) \<longrightarrow>
      flush (run E opts req (compression r) cs) = run E opts req (compression r) cs) \<and>
   (stream (run E opts req (compression r) cs) = None \<longrightarrow>
      flush (run E opts req (compression r) cs) = run E opts req (compression r) cs) \<and>
   (\<forall>z. stream (run E opts req (compression r) cs) = Some z \<longrightarrow>
      flush (run E opts req (compression r) cs) =
        (run E opts req (compression r) cs)\<lparr>stream := Some (stream_flush z)\<rparr>)"
proof -
  have "coherent (run E opts req (compression r) cs)"
    by (rule run_coherent [OF coherent_compression])
  then show ?thesis by (auto simp: coherent_def flush_def)
qed

lemma flush_example_stream:
  "map_option zflushes (stream (run node_env default_options (get_request [(''gzip'', 1000)])
      (compression (fresh_response [(''content-type'', HStr ''text/html'')]))
      [Write (JStr ''hello'') Undefined Undefined])) = Some 0"
  by code_simp

theorem flush_operation_witness:
  "map_option zflushes (stream (flush (run node_env default_options (get_request [(''gzip'', 1000)])
      (compression (fresh_response [(''content-type'', HStr ''text/html'')]))
      [Write (JStr ''hello'') Undefined Undefined]))) = Some 1 \<and>
   flush (run node_env default_options (get_request [(''gzip'', 1000)])
      (compression (fresh_response [(''content-type'', HStr ''text/html'')])) []) =
   run node_env default_options (get_request [(''gzip'', 1000)])
      (compression (fresh_response [(''content-type'', HStr ''text/html'')])) []"
proof -
  let ?q = "get_request [(''gzip'', 1000)]"
  let ?r = "fresh_response [(''content-type'', HStr ''text/html'')]"
  let ?s = "run node_env default_options ?q (compression ?r) [Write (JStr ''hello'') Undefined Undefined]"
  obtain z where z: "stream ?s = Some z" and f: "zflushes z = 0"
    using flush_example_stream by (cases "stream ?s") auto
  have "flush ?s = ?s\<lparr>stream := Some (stream_flush z)\<rparr>"
    using flush_operation [of node_env default_options ?q ?r
            "[Write (JStr ''hello'') Undefined Undefined]"] z by blast
  then have a: "map_option zflushes (stream (flush ?s)) = Some 1"
    by (simp add: stream_flush_def f)
  have n: "\<not> header_sent (res (run node_env default_options ?q (compression ?r) []))"
    by (simp add: compression_def fresh_response_def)
  have b: "flush (run node_env default_options ?q (compression ?r) []) =
           run node_env default_options ?q (compression ?r) []"
    using flush_operation [of node_env default_options ?q ?r "[]"] n by blast
  show ?thesis using a b by simp
qed

end
